theory Spec2Isabelle
  imports
    Main
    "HOL-Library.Char_ord"
    "HOL-Library.List_Lexorder"
    "HOL-Library.AList"
    "HOL-Library.Multiset"
begin

section \<open>Session review flagging (scripts/flag_sessions_for_review.py)\<close>

text \<open>
  A shallow embedding of the session review flagging script. Every Python function of
  the script is a HOL function of the same name, but for \<open>get_local_db_path\<close>,
  whose search of the file system is summarised by the database it finds, and
  \<open>main\<close>, which parses the command line and prints the summary. A function that
  touches the outside world takes the state of that world and returns the new one next
  to its result; a raised exception is an \<open>Inl\<close> result.

  Scope of the value model: Python values are \<open>None\<close>, booleans, unbounded
  integers, strings (as byte strings), lists and dictionaries; SQL values are
  \<open>NULL\<close>, \<open>INTEGER\<close> and \<open>TEXT\<close>. Floating point numbers
  (\<open>REAL\<close>) and \<open>BLOB\<close>s are left out. Values of different columns are
  compared as stored: column affinities and collations of the schema, which is not part of
  the script, are not modelled.
\<close>

subsection \<open>Python values and exceptions\<close>

datatype pyval =
    PNone
  | PBool bool
  | PInt int
  | PStr string
  | PList "pyval list"
  | PDict "(string \<times> pyval) list"

text \<open>
  A dictionary is an association list in insertion order; a key is looked up with
  \<open>map_of\<close>.
\<close>

datatype error =
    FileNotFoundError
  | OperationalError string
  | IntegrityError string
  | ProgrammingError string
  | JSONDecodeError
  | ValueError
  | RecursionError
  | AttributeError
  | TypeError
  | KeyError
  | IndexError
  | OverflowError string

text \<open>Truthiness, as Python's \<open>not v\<close> and \<open>if v\<close> read it.\<close>

fun truthy :: "pyval \<Rightarrow> bool" where
  "truthy PNone = False"
| "truthy (PBool b) = b"
| "truthy (PInt i) = (i \<noteq> 0)"
| "truthy (PStr s) = (s \<noteq> [])"
| "truthy (PList xs) = (xs \<noteq> [])"
| "truthy (PDict kvs) = (kvs \<noteq> [])"

text \<open>\<open>xs[i]\<close> on a list and \<open>d[k]\<close> on a dictionary raise when the index or key is missing.\<close>

definition list_getitem :: "pyval list \<Rightarrow> nat \<Rightarrow> error + pyval" where
  "list_getitem xs i = (if i < length xs then Inr (xs ! i) else Inl IndexError)"

definition dict_getitem :: "(string \<times> pyval) list \<Rightarrow> string \<Rightarrow> error + pyval" where
  "dict_getitem kvs k = (case map_of kvs k of None \<Rightarrow> Inl KeyError | Some v \<Rightarrow> Inr v)"

text \<open>\<open>d.get(k, default)\<close> on a dictionary.\<close>

definition dict_get :: "(string \<times> pyval) list \<Rightarrow> string \<Rightarrow> pyval \<Rightarrow> pyval" where
  "dict_get kvs k dflt = (case map_of kvs k of None \<Rightarrow> dflt | Some v \<Rightarrow> v)"

subsection \<open>The collaborators outside the script\<close>

text \<open>
  What the external command is asked to execute: the text of one of the four detection
  queries, or the literal \<open>INSERT\<close> statement that \<open>flag_session_for_review\<close>
  writes in remote mode.
\<close>

datatype query =
    MissingDataQuery
  | DuplicateDatesQuery
  | IncompleteAttendanceQuery
  | AutoImportedQuery

datatype sqltext = SelectText query | InsertText string

text \<open>
  One run of \<open>npx wrangler\<close>: its standard output when it exits with status 0, its
  standard error when it exits with another status (\<open>CalledProcessError\<close>), or the
  executable is missing (\<open>FileNotFoundError\<close>).
\<close>

datatype wrangler_reply =
    Completed string
  | CalledProcessError string
  | WranglerNotFound

text \<open>
  The environment holds what the script calls and does not define: \<open>json.loads\<close>
  (the value it returns, or the exception it raises: \<open>JSONDecodeError\<close> on a text
  that is not JSON, \<open>ValueError\<close> on an integer literal longer than the digit
  limit of the interpreter, \<open>RecursionError\<close> on a text nested too deeply), the
  text Python's \<open>str\<close> gives for a list or a dictionary, the external command (its
  reply to a statement, given the statements it has executed before), and the random and
  clock sources read by \<open>uuid.uuid4().hex\<close> and
  \<open>datetime.utcnow().isoformat()\<close> at the n-th call.
\<close>

record env =
  json_loads :: "string \<Rightarrow> error + pyval"
  str_container :: "pyval \<Rightarrow> string"
  wrangler :: "sqltext list \<Rightarrow> sqltext \<Rightarrow> wrangler_reply"
  uuid4_hex :: "nat \<Rightarrow> string"
  utcnow_isoformat :: "nat \<Rightarrow> string"

subsection \<open>parse_wrangler_output\<close>

text \<open>
  The body of the \<open>try\<close> block: \<open>json.loads\<close>, whose exception ends
  the block, then the two \<open>isinstance\<close> tests. Every indexing step is written with
  the exception it could raise.
\<close>

definition parse_json_body :: "env \<Rightarrow> string \<Rightarrow> error + pyval" where
  "parse_json_body E output =
     (case json_loads E output of
        Inl e \<Rightarrow> Inl e
      | Inr data \<Rightarrow>
          (case data of
             PList xs \<Rightarrow>
               if length xs > 0 then
                 (case list_getitem xs 0 of
                    Inl e \<Rightarrow> Inl e
                  | Inr first \<Rightarrow>
                      (case first of
                         PDict kvs \<Rightarrow>
                           if map_of kvs ''results'' \<noteq> None
                           then dict_getitem kvs ''results''
                           else Inr data
                       | _ \<Rightarrow> Inr data))
               else Inr (PList [])
           | _ \<Rightarrow> Inr (PList [])))"

text \<open>
  \<open>output\<close> is \<open>None\<close> when \<open>run_wrangler_command\<close> failed. The
  \<open>except\<close> clause names \<open>json.JSONDecodeError\<close>: every other exception
  of the block leaves the function.
\<close>

definition parse_wrangler_output :: "env \<Rightarrow> string option \<Rightarrow> error + pyval" where
  "parse_wrangler_output E output =
     (case output of
        None \<Rightarrow> Inr (PList [])
      | Some s \<Rightarrow>
          if s = [] then Inr (PList [])
          else (case parse_json_body E s of
                  Inl JSONDecodeError \<Rightarrow> Inr (PList [])
                | r \<Rightarrow> r))"

text \<open>Whether a value is a dictionary that has the key \<open>results\<close>.\<close>

definition has_results :: "pyval \<Rightarrow> bool" where
  "has_results v = (case v of PDict kvs \<Rightarrow> map_of kvs ''results'' \<noteq> None | _ \<Rightarrow> False)"

definition is_nonempty_list :: "pyval \<Rightarrow> bool" where
  "is_nonempty_list v = (case v of PList (x # xs) \<Rightarrow> True | _ \<Rightarrow> False)"

text \<open>
  A stand-in for \<open>json.loads\<close>, for the concrete runs below. It knows the value
  of seven texts and the two limits of the interpreter: an integer literal of more than
  4300 digits raises \<open>ValueError\<close>, and 100000 or more opening brackets raise
  \<open>RecursionError\<close>. Every other text is taken as rejected.
\<close>

definition envelope_text :: string where
  "envelope_text = ''[{'' @ [CHR 0x22] @ ''results'' @ [CHR 0x22] @ '': [7]}, 3]''"

definition remote_rows_text :: string where
  "remote_rows_text =
     ''[{'' @ [CHR 0x22] @ ''results'' @ [CHR 0x22] @ '': [{'' @ [CHR 0x22] @ ''id'' @ [CHR 0x22]
     @ '': '' @ [CHR 0x22] @ ''A'' @ [CHR 0x22] @ ''}, {'' @ [CHR 0x22] @ ''id'' @ [CHR 0x22]
     @ '': null}]}]''"

definition attendance_rows_text :: string where
  "attendance_rows_text =
     ''[{'' @ [CHR 0x22] @ ''results'' @ [CHR 0x22] @ '': [{'' @ [CHR 0x22] @ ''id'' @ [CHR 0x22]
     @ '': '' @ [CHR 0x22] @ ''A'' @ [CHR 0x22] @ '', '' @ [CHR 0x22] @ ''absence_count''
     @ [CHR 0x22] @ '': 0, '' @ [CHR 0x22] @ ''term_member_count'' @ [CHR 0x22] @ '': 2}, {''
     @ [CHR 0x22] @ ''id'' @ [CHR 0x22] @ '': '' @ [CHR 0x22] @ ''D'' @ [CHR 0x22] @ '', ''
     @ [CHR 0x22] @ ''absence_count'' @ [CHR 0x22] @ '': 1, '' @ [CHR 0x22]
     @ ''term_member_count'' @ [CHR 0x22] @ '': 0}]}]''"

definition huge_integer_text :: string where
  "huge_integer_text = replicate 5000 (CHR ''1'')"

definition toy_loads :: "string \<Rightarrow> error + pyval" where
  "toy_loads s =
     (if s = ''[]'' then Inr (PList [])
      else if s = ''null'' then Inr PNone
      else if s = ''[1, 2]'' then Inr (PList [PInt 1, PInt 2])
      else if s = ''[{}]'' then Inr (PList [PDict []])
      else if s = envelope_text
        then Inr (PList [PDict [(''results'', PList [PInt 7])], PInt 3])
      else if s = remote_rows_text
        then Inr (PList [PDict [(''results'',
                     PList [PDict [(''id'', PStr ''A'')], PDict [(''id'', PNone)]])]])
      else if s = attendance_rows_text
        then Inr (PList [PDict [(''results'',
                     PList [PDict [(''id'', PStr ''A''), (''absence_count'', PInt 0),
                                   (''term_member_count'', PInt 2)],
                            PDict [(''id'', PStr ''D''), (''absence_count'', PInt 1),
                                   (''term_member_count'', PInt 0)]])]])
      else if 4300 < length s \<and> set s \<subseteq> set ''123456789'' then Inl ValueError
      else if 100000 \<le> length s \<and> set s \<subseteq> {CHR ''[''} then Inl RecursionError
      else Inl JSONDecodeError)"

text \<open>
  \<open>toy_env\<close> has no external command installed; \<open>remote_env\<close> has one
  that answers the \<open>incomplete_attendance\<close> query with two rows, the second of a
  term without members, and every other statement with two rows, the second without an
  identifier.
\<close>

definition toy_env :: env where
  "toy_env =
     \<lparr> json_loads = toy_loads,
       str_container = (\<lambda>v. ''<container>''),
       wrangler = (\<lambda>log stmt. WranglerNotFound),
       uuid4_hex = (\<lambda>n. replicate 32 CHR ''0''),
       utcnow_isoformat = (\<lambda>n. ''2024-01-01T00:00:00'') \<rparr>"

definition remote_env :: env where
  "remote_env =
     toy_env\<lparr>wrangler :=
       (\<lambda>log stmt. if stmt = SelectText IncompleteAttendanceQuery
                   then Completed attendance_rows_text
                   else Completed remote_rows_text)\<rparr>"

subsection \<open>SQL values and the store\<close>

datatype sqlval = SNull | SInt int | SText string

text \<open>
  The order SQLite sorts by: \<open>NULL\<close> first, then integers by value, then text by
  its bytes (the \<open>BINARY\<close> collation).
\<close>

instantiation sqlval :: linorder
begin

fun less_eq_sqlval :: "sqlval \<Rightarrow> sqlval \<Rightarrow> bool" where
  "less_eq_sqlval SNull b = True"
| "less_eq_sqlval (SInt i) SNull = False"
| "less_eq_sqlval (SInt i) (SInt j) = (i \<le> j)"
| "less_eq_sqlval (SInt i) (SText t) = True"
| "less_eq_sqlval (SText s) (SText t) = (s \<le> t)"
| "less_eq_sqlval (SText s) b = False"

definition less_sqlval :: "sqlval \<Rightarrow> sqlval \<Rightarrow> bool" where
  "less_sqlval a b = (a \<le> b \<and> \<not> b \<le> a)"

instance
proof
  fix x y z :: sqlval
  show "(x < y) = (x \<le> y \<and> \<not> y \<le> x)"
    by (simp add: less_sqlval_def)
  show "x \<le> x"
    by (cases x) simp_all
  show "x \<le> y \<Longrightarrow> y \<le> z \<Longrightarrow> x \<le> z"
    by (cases x; cases y; cases z) auto
  show "x \<le> y \<Longrightarrow> y \<le> x \<Longrightarrow> x = y"
    by (cases x; cases y) auto
  show "x \<le> y \<or> y \<le> x"
    by (cases x; cases y) auto
qed

end

text \<open>
  A comparison \<open>a = b\<close> of SQL is true only when neither side is \<open>NULL\<close>.
  \<open>x IN (ys)\<close> has three values: \<open>None\<close> stands for \<open>NULL\<close>. A
  \<open>WHERE\<close> clause keeps a row only when its condition is true.
\<close>

definition sql_eq :: "sqlval \<Rightarrow> sqlval \<Rightarrow> bool" where
  "sql_eq a b = (a \<noteq> SNull \<and> b \<noteq> SNull \<and> a = b)"

definition sql_in :: "sqlval \<Rightarrow> sqlval list \<Rightarrow> bool option" where
  "sql_in x ys =
     (if ys = [] then Some False
      else if x = SNull then None
      else if x \<in> set ys then Some True
      else if SNull \<in> set ys then None
      else Some False)"

definition sql_not :: "bool option \<Rightarrow> bool option" where
  "sql_not b = map_option Not b"

definition is_true :: "bool option \<Rightarrow> bool" where
  "is_true b = (b = Some True)"

text \<open>
  \<open>ORDER BY\<close> ascending and descending. SQLite does not promise an order for rows
  with equal keys; its sorter keeps them in the order in which they reach it, and so do
  both functions. The general statements below only use that the result is a sorted
  rearrangement of the rows.
\<close>

definition order_by :: "('a \<Rightarrow> sqlval) \<Rightarrow> 'a list \<Rightarrow> 'a list" where
  "order_by f xs = sort_key f xs"

definition order_by_desc :: "('a \<Rightarrow> sqlval) \<Rightarrow> 'a list \<Rightarrow> 'a list" where
  "order_by_desc f xs = rev (sort_key f (rev xs))"

text \<open>
  The tables of the store, with the columns the script reads and writes
  (\<open>s\<close> and \<open>sa\<close> are the aliases the script gives to \<open>sessions\<close> and
  \<open>session_absences\<close>). The schema is not part of the script: a table that does not
  exist is \<open>None\<close>, and \<open>review_queue_unique\<close> says whether the schema
  declares the uniqueness constraint over \<open>(item_type, item_id, issue_type)\<close>.
\<close>

record session =
  s_id :: sqlval
  s_date :: sqlval
  s_type :: sqlval
  s_term_id :: sqlval
  s_ordinal_number :: sqlval
  s_created_at :: sqlval

record membership =
  m_term_id :: sqlval

record session_absence =
  sa_session_id :: sqlval
  sa_person_id :: sqlval

record review =
  rq_id :: sqlval
  rq_item_type :: sqlval
  rq_item_id :: sqlval
  rq_issue_type :: sqlval
  rq_description :: sqlval
  rq_status :: sqlval
  rq_created_at :: sqlval

record database =
  sessions :: "session list option"
  memberships :: "membership list option"
  session_absences :: "session_absence list option"
  review_queue :: "review list option"
  review_queue_unique :: bool

type_synonym sqlrow = "(string \<times> sqlval) list"

text \<open>\<open>SELECT id, date, type, term_id, ordinal_number\<close>.\<close>

definition session_columns :: "session \<Rightarrow> sqlrow" where
  "session_columns s =
     [(''id'', s_id s), (''date'', s_date s), (''type'', s_type s),
      (''term_id'', s_term_id s), (''ordinal_number'', s_ordinal_number s)]"

definition no_such_table :: "string \<Rightarrow> error" where
  "no_such_table t = OperationalError (''no such table: '' @ t)"

subsection \<open>The four detection queries\<close>

text \<open>
  \<^verbatim>\<open>SELECT id, date, type, term_id, ordinal_number FROM sessions
  WHERE date IS NULL OR type IS NULL OR term_id IS NULL\<close>
\<close>

definition select_missing_data :: "database \<Rightarrow> error + sqlrow list" where
  "select_missing_data db =
     (case sessions db of
        None \<Rightarrow> Inl (no_such_table ''sessions'')
      | Some ss \<Rightarrow>
          Inr (map session_columns
                 (filter (\<lambda>s. s_date s = SNull \<or> s_type s = SNull \<or> s_term_id s = SNull) ss)))"

text \<open>
  \<^verbatim>\<open>SELECT id, date, type, term_id, ordinal_number FROM sessions
  WHERE date IN (SELECT date FROM sessions WHERE date IS NOT NULL
                 GROUP BY date HAVING COUNT(*) > 1)
  ORDER BY date\<close>
\<close>

definition duplicated_dates :: "session list \<Rightarrow> sqlval list" where
  "duplicated_dates ss =
     filter (\<lambda>d. length (filter (\<lambda>s. s_date s = d) ss) > 1)
       (remdups (filter (\<lambda>d. d \<noteq> SNull) (map s_date ss)))"

definition select_duplicate_dates :: "database \<Rightarrow> error + sqlrow list" where
  "select_duplicate_dates db =
     (case sessions db of
        None \<Rightarrow> Inl (no_such_table ''sessions'')
      | Some ss \<Rightarrow>
          Inr (map session_columns
                 (order_by s_date
                    (filter (\<lambda>s. is_true (sql_in (s_date s) (duplicated_dates ss))) ss))))"

text \<open>
  \<^verbatim>\<open>SELECT s.id, s.date, s.type, s.term_id, s.ordinal_number,
         COUNT(sa.person_id) as absence_count,
         (SELECT COUNT(*) FROM memberships WHERE term_id = s.term_id) as term_member_count
  FROM sessions s LEFT JOIN session_absences sa ON s.id = sa.session_id
  WHERE s.term_id IS NOT NULL
  GROUP BY s.id
  HAVING term_member_count > 0
  ORDER BY s.date DESC\<close>

  \<open>COUNT(sa.person_id)\<close> counts the joined absence rows whose \<open>person_id\<close> is
  not \<open>NULL\<close>; the row that the left join adds for a session without absences counts
  nothing. A group of \<open>GROUP BY s.id\<close> holds the sessions that share one \<open>id\<close>;
  SQLite takes the columns of \<open>s\<close> from one row of the group without saying which,
  and the model takes the first. Under a primary key on \<open>sessions.id\<close> every group
  has one session, and SQLite reads the sessions through the index of the key: the groups
  reach \<open>ORDER BY\<close> in ascending order of \<open>id\<close>.
\<close>

definition absence_count :: "session_absence list \<Rightarrow> session \<Rightarrow> nat" where
  "absence_count sas s =
     length (filter (\<lambda>a. sql_eq (s_id s) (sa_session_id a) \<and> sa_person_id a \<noteq> SNull) sas)"

definition term_member_count :: "membership list \<Rightarrow> session \<Rightarrow> nat" where
  "term_member_count ms s = length (filter (\<lambda>m. sql_eq (m_term_id m) (s_term_id s)) ms)"

definition attendance_columns :: "session \<times> nat \<times> nat \<Rightarrow> sqlrow" where
  "attendance_columns g =
     (case g of (s, absences, members) \<Rightarrow>
        session_columns s @
        [(''absence_count'', SInt (int absences)), (''term_member_count'', SInt (int members))])"

definition attendance_group ::
  "session_absence list \<Rightarrow> membership list \<Rightarrow> session list \<Rightarrow> (session \<times> nat \<times> nat) list" where
  "attendance_group sas ms g =
     (case g of
        [] \<Rightarrow> []
      | s # rest \<Rightarrow> [(s, sum_list (map (absence_count sas) g), term_member_count ms s)])"

definition select_incomplete_attendance :: "database \<Rightarrow> error + sqlrow list" where
  "select_incomplete_attendance db =
     (case sessions db of
        None \<Rightarrow> Inl (no_such_table ''sessions'')
      | Some ss \<Rightarrow>
          (case session_absences db of
             None \<Rightarrow> Inl (no_such_table ''session_absences'')
           | Some sas \<Rightarrow>
               (case memberships db of
                  None \<Rightarrow> Inl (no_such_table ''memberships'')
                | Some ms \<Rightarrow>
                    (let with_term = filter (\<lambda>s. s_term_id s \<noteq> SNull) ss;
                         groups = map (\<lambda>k. filter (\<lambda>s. s_id s = k) with_term)
                                    (sort (remdups (map s_id with_term)));
                         grouped = concat (map (attendance_group sas ms) groups);
                         having = filter (\<lambda>g. snd (snd g) > 0) grouped
                     in Inr (map attendance_columns
                               (order_by_desc (\<lambda>g. s_date (fst g)) having))))))"

text \<open>
  \<^verbatim>\<open>SELECT id, date, type, term_id, ordinal_number, created_at FROM sessions
  WHERE id NOT IN (SELECT item_id FROM review_queue
                   WHERE item_type = 'session' AND status = 'resolved')
  ORDER BY created_at DESC\<close>
\<close>

definition resolved_item_ids :: "review list \<Rightarrow> sqlval list" where
  "resolved_item_ids rq =
     map rq_item_id
       (filter (\<lambda>r. sql_eq (rq_item_type r) (SText ''session'')
                    \<and> sql_eq (rq_status r) (SText ''resolved'')) rq)"

definition auto_imported_columns :: "session \<Rightarrow> sqlrow" where
  "auto_imported_columns s = session_columns s @ [(''created_at'', s_created_at s)]"

definition select_auto_imported :: "database \<Rightarrow> error + sqlrow list" where
  "select_auto_imported db =
     (case sessions db of
        None \<Rightarrow> Inl (no_such_table ''sessions'')
      | Some ss \<Rightarrow>
          (case review_queue db of
             None \<Rightarrow> Inl (no_such_table ''review_queue'')
           | Some rq \<Rightarrow>
               Inr (map auto_imported_columns
                      (order_by_desc s_created_at
                         (filter (\<lambda>s. is_true (sql_not (sql_in (s_id s) (resolved_item_ids rq))))
                            ss)))))"

text \<open>\<open>cursor.execute(query)\<close> followed by \<open>cursor.fetchall()\<close>.\<close>

fun run_query :: "query \<Rightarrow> database \<Rightarrow> error + sqlrow list" where
  "run_query MissingDataQuery db = select_missing_data db"
| "run_query DuplicateDatesQuery db = select_duplicate_dates db"
| "run_query IncompleteAttendanceQuery db = select_incomplete_attendance db"
| "run_query AutoImportedQuery db = select_auto_imported db"

text \<open>\<open>dict(row)\<close>: a fetched row as a Python dictionary.\<close>

fun py_of_sql :: "sqlval \<Rightarrow> pyval" where
  "py_of_sql SNull = PNone"
| "py_of_sql (SInt i) = PInt i"
| "py_of_sql (SText s) = PStr s"

definition row_dict :: "sqlrow \<Rightarrow> (string \<times> pyval) list" where
  "row_dict row = map (\<lambda>(k, v). (k, py_of_sql v)) row"

definition dict_of_row :: "sqlrow \<Rightarrow> pyval" where
  "dict_of_row row = PDict (row_dict row)"

subsection \<open>The state of the world\<close>

text \<open>
  \<open>local_db\<close> is the local D1 database file that \<open>get_local_db_path\<close> finds
  (\<open>None\<close> when it finds none); \<open>open_conns\<close> counts the connections that were
  opened and not closed; \<open>temp_files\<close> are the temporary files in the working
  directory; \<open>wrangler_log\<close> lists the runs of the external command, each with its
  arguments and the statement in the file it names; \<open>draws\<close> counts the identifiers
  generated so far; \<open>stdout\<close> and \<open>stderr\<close> are the printed lines.
\<close>

record world =
  local_db :: "database option"
  open_conns :: nat
  temp_files :: "string list"
  wrangler_log :: "(string list \<times> sqltext) list"
  draws :: nat
  stdout :: "string list"
  stderr :: "string list"

definition REMOTE_DB_NAME :: string where
  "REMOTE_DB_NAME = ''betterlb_openlgu''"

definition print_out :: "string \<Rightarrow> world \<Rightarrow> world" where
  "print_out line w = w\<lparr>stdout := stdout w @ [line]\<rparr>"

definition print_err :: "string \<Rightarrow> world \<Rightarrow> world" where
  "print_err line w = w\<lparr>stderr := stderr w @ [line]\<rparr>"

definition write_file :: "string \<Rightarrow> world \<Rightarrow> world" where
  "write_file name w = w\<lparr>temp_files := name # removeAll name (temp_files w)\<rparr>"

definition remove_file :: "string \<Rightarrow> world \<Rightarrow> world" where
  "remove_file name w = w\<lparr>temp_files := removeAll name (temp_files w)\<rparr>"

definition conn_close :: "world \<Rightarrow> world" where
  "conn_close w = w\<lparr>open_conns := open_conns w - 1\<rparr>"

subsection \<open>run_wrangler_command, get_db_connection, execute_query\<close>

text \<open>
  \<open>stmt\<close> is the content of the file that \<open>command\<close> names. Both exceptions of
  \<open>subprocess.run\<close> are caught and give \<open>None\<close>.
\<close>

definition run_wrangler_command ::
  "env \<Rightarrow> string list \<Rightarrow> sqltext \<Rightarrow> world \<Rightarrow> string option \<times> world" where
  "run_wrangler_command E command stmt w =
     (let w1 = w\<lparr>wrangler_log := wrangler_log w @ [(command, stmt)]\<rparr> in
      case wrangler E (map snd (wrangler_log w)) stmt of
        Completed output \<Rightarrow> (Some output, w1)
      | CalledProcessError e \<Rightarrow> (None, print_err (''Error running wrangler command: '' @ e) w1)
      | WranglerNotFound \<Rightarrow>
          (None,
           print_err ''Error: wrangler not found. Make sure @cloudflare/wrangler is installed.'' w1))"

text \<open>
  The connection object is the database it gives access to; \<open>None\<close> is the
  \<open>None\<close> returned for remote use.
\<close>

definition get_db_connection :: "bool \<Rightarrow> world \<Rightarrow> (error + database option) \<times> world" where
  "get_db_connection use_remote w =
     (if use_remote then (Inr None, w)
      else (case local_db w of
              None \<Rightarrow> (Inl FileNotFoundError, w)
            | Some db \<Rightarrow> (Inr (Some db), w\<lparr>open_conns := open_conns w + 1\<rparr>)))"

definition execute_query :: "env \<Rightarrow> query \<Rightarrow> bool \<Rightarrow> world \<Rightarrow> (error + pyval) \<times> world" where
  "execute_query E q use_remote w =
     (if use_remote then
        (let w1 = write_file ''.temp_query.sql'' w;
             (result, w2) = run_wrangler_command E
                [''d1'', ''execute'', REMOTE_DB_NAME, ''--remote'', ''--file=.temp_query.sql'']
                (SelectText q) w1
         in (parse_wrangler_output E result, remove_file ''.temp_query.sql'' w2))
      else
        (case get_db_connection False w of
           (Inl e, w1) \<Rightarrow> (Inl e, w1)
         | (Inr None, w1) \<Rightarrow> (Inl AttributeError, w1)
         | (Inr (Some db), w1) \<Rightarrow>
             (case run_query q db of
                Inl e \<Rightarrow> (Inl e, w1)
              | Inr rows \<Rightarrow> (Inr (PList (map dict_of_row rows)), conn_close w1))))"

subsection \<open>The detection rules\<close>

definition detect_missing_data_sessions :: "env \<Rightarrow> bool \<Rightarrow> world \<Rightarrow> (error + pyval) \<times> world" where
  "detect_missing_data_sessions E use_remote w = execute_query E MissingDataQuery use_remote w"

definition detect_duplicate_dates :: "env \<Rightarrow> bool \<Rightarrow> world \<Rightarrow> (error + pyval) \<times> world" where
  "detect_duplicate_dates E use_remote w = execute_query E DuplicateDatesQuery use_remote w"

text \<open>Iterating a value: a list gives its elements, a dictionary its keys, a string its characters.\<close>

definition py_iter :: "pyval \<Rightarrow> error + pyval list" where
  "py_iter v =
     (case v of
        PList xs \<Rightarrow> Inr xs
      | PDict kvs \<Rightarrow> Inr (map (\<lambda>kv. PStr (fst kv)) kvs)
      | PStr s \<Rightarrow> Inr (map (\<lambda>c. PStr [c]) s)
      | _ \<Rightarrow> Inl TypeError)"

text \<open>\<open>session.get(k, default)\<close>: only a dictionary has the method.\<close>

definition py_get :: "pyval \<Rightarrow> string \<Rightarrow> pyval \<Rightarrow> error + pyval" where
  "py_get v k dflt = (case v of PDict kvs \<Rightarrow> Inr (dict_get kvs k dflt) | _ \<Rightarrow> Inl AttributeError)"

text \<open>\<open>v == 0\<close>: also true of \<open>False\<close>.\<close>

definition py_eq_zero :: "pyval \<Rightarrow> bool" where
  "py_eq_zero v = (v = PInt 0 \<or> v = PBool False)"

text \<open>The loop of \<open>detect_incomplete_attendance\<close> that skips the terms without members.\<close>

fun skip_memberless :: "pyval list \<Rightarrow> error + pyval list" where
  "skip_memberless [] = Inr []"
| "skip_memberless (session # rest) =
     (case py_get session ''term_member_count'' (PInt 0) of
        Inl e \<Rightarrow> Inl e
      | Inr n \<Rightarrow>
          (case skip_memberless rest of
             Inl e \<Rightarrow> Inl e
           | Inr incomplete \<Rightarrow>
               if py_eq_zero n then Inr incomplete else Inr (session # incomplete)))"

definition detect_incomplete_attendance :: "env \<Rightarrow> bool \<Rightarrow> world \<Rightarrow> (error + pyval) \<times> world" where
  "detect_incomplete_attendance E use_remote w =
     (case execute_query E IncompleteAttendanceQuery use_remote w of
        (Inl e, w1) \<Rightarrow> (Inl e, w1)
      | (Inr fetched, w1) \<Rightarrow>
          (case py_iter fetched of
             Inl e \<Rightarrow> (Inl e, w1)
           | Inr items \<Rightarrow>
               (case skip_memberless items of
                  Inl e \<Rightarrow> (Inl e, w1)
                | Inr incomplete \<Rightarrow> (Inr (PList incomplete), w1))))"

definition detect_auto_imported_unreviewed :: "env \<Rightarrow> bool \<Rightarrow> world \<Rightarrow> (error + pyval) \<times> world" where
  "detect_auto_imported_unreviewed E use_remote w = execute_query E AutoImportedQuery use_remote w"

subsection \<open>Formatting values\<close>

text \<open>\<open>str(n)\<close> for an integer: its decimal digits.\<close>

fun str_nat :: "nat \<Rightarrow> string" where
  "str_nat n =
     (if n < 10 then [char_of (48 + n)]
      else str_nat (n div 10) @ [char_of (48 + n mod 10)])"

declare str_nat.simps [simp del]

definition str_int :: "int \<Rightarrow> string" where
  "str_int i = (if i < 0 then ''-'' @ str_nat (nat (- i)) else str_nat (nat i))"

text \<open>What an f-string puts in place of \<open>{v}\<close>.\<close>

definition py_str :: "env \<Rightarrow> pyval \<Rightarrow> string" where
  "py_str E v =
     (case v of
        PNone \<Rightarrow> ''None''
      | PBool b \<Rightarrow> (if b then ''True'' else ''False'')
      | PInt i \<Rightarrow> str_int i
      | PStr s \<Rightarrow> s
      | _ \<Rightarrow> str_container E v)"

text \<open>\<open>sep.join(xs)\<close>.\<close>

fun join :: "string \<Rightarrow> string list \<Rightarrow> string" where
  "join sep [] = []"
| "join sep [x] = x"
| "join sep (x # y # ys) = x @ sep @ join sep (y # ys)"

definition quote :: string where
  "quote = [CHR 0x27]"

definition quoted :: "string \<Rightarrow> string" where
  "quoted s = quote @ s @ quote"

text \<open>\<open>str(e)\<close> for a caught exception.\<close>

fun error_text :: "error \<Rightarrow> string" where
  "error_text (OperationalError m) = m"
| "error_text (IntegrityError m) = m"
| "error_text (ProgrammingError m) = m"
| "error_text (OverflowError m) = m"
| "error_text e = []"

subsection \<open>flag_session_for_review\<close>

text \<open>
  Binding a Python value to the third parameter of the statement: an integer outside
  64 bits and a list or dictionary are refused.
\<close>

definition bind_param :: "pyval \<Rightarrow> error + sqlval" where
  "bind_param v =
     (case v of
        PNone \<Rightarrow> Inr SNull
      | PBool b \<Rightarrow> Inr (SInt (if b then 1 else 0))
      | PInt i \<Rightarrow>
          if - (2 ^ 63) \<le> i \<and> i < 2 ^ 63 then Inr (SInt i)
          else Inl (OverflowError ''Python int too large to convert to SQLite INTEGER'')
      | PStr s \<Rightarrow> Inr (SText s)
      | PList xs \<Rightarrow>
          Inl (ProgrammingError
                 (''Error binding parameter 3: type '' @ quoted ''list'' @ '' is not supported''))
      | PDict kvs \<Rightarrow>
          Inl (ProgrammingError
                 (''Error binding parameter 3: type '' @ quoted ''dict'' @ '' is not supported'')))"

text \<open>
  \<^verbatim>\<open>INSERT INTO review_queue (id, item_type, item_id, issue_type, description, status, created_at)
  VALUES (?1, ?2, ?3, ?4, ?5, ?6, ?7)\<close>
  followed by \<open>conn.commit()\<close>. The primary key on \<open>id\<close> is checked, and the
  uniqueness constraint over \<open>(item_type, item_id, issue_type)\<close> when the schema
  declares it; a \<open>NULL\<close> never conflicts.
\<close>

definition same_flag :: "review \<Rightarrow> review \<Rightarrow> bool" where
  "same_flag r r' =
     (sql_eq (rq_item_type r) (rq_item_type r')
      \<and> sql_eq (rq_item_id r) (rq_item_id r')
      \<and> sql_eq (rq_issue_type r) (rq_issue_type r'))"

definition insert_review :: "database \<Rightarrow> review \<Rightarrow> error + database" where
  "insert_review db new =
     (case review_queue db of
        None \<Rightarrow> Inl (no_such_table ''review_queue'')
      | Some rq \<Rightarrow>
          if list_ex (\<lambda>r. sql_eq (rq_id r) (rq_id new)) rq
          then Inl (IntegrityError ''UNIQUE constraint failed: review_queue.id'')
          else if review_queue_unique db \<and> list_ex (\<lambda>r. same_flag r new) rq
          then Inl (IntegrityError
                 ''UNIQUE constraint failed: review_queue.item_type, review_queue.item_id, review_queue.issue_type'')
          else Inr (db\<lparr>review_queue := Some (rq @ [new])\<rparr>))"

text \<open>\<open>cursor.execute(query, params)\<close>: prepare, bind, run.\<close>

definition execute_insert ::
  "database \<Rightarrow> string \<Rightarrow> pyval \<Rightarrow> string \<Rightarrow> string \<Rightarrow> string \<Rightarrow> error + database" where
  "execute_insert db review_id session_id issue_type description now =
     (case review_queue db of
        None \<Rightarrow> Inl (no_such_table ''review_queue'')
      | Some rq \<Rightarrow>
          (case bind_param session_id of
             Inl e \<Rightarrow> Inl e
           | Inr item \<Rightarrow>
               insert_review db
                 \<lparr> rq_id = SText review_id, rq_item_type = SText ''session'', rq_item_id = item,
                   rq_issue_type = SText issue_type, rq_description = SText description,
                   rq_status = SText ''pending'', rq_created_at = SText now \<rparr>))"

definition insert_statement :: "env \<Rightarrow> string \<Rightarrow> pyval \<Rightarrow> string \<Rightarrow> string \<Rightarrow> string \<Rightarrow> string" where
  "insert_statement E review_id session_id issue_type description now =
     (let escaped_desc = concat (map (\<lambda>c. if c = CHR 0x27 then [c, c] else [c]) description) in
      ''INSERT INTO review_queue (id, item_type, item_id, issue_type, description, status, created_at) VALUES (''
      @ quoted review_id @ '', '' @ quoted ''session'' @ '', '' @ quoted (py_str E session_id)
      @ '', '' @ quoted issue_type @ '', '' @ quoted escaped_desc @ '', '' @ quoted ''pending''
      @ '', '' @ quoted now @ '');'' @ [CHR 0x0A])"

text \<open>
  The identifier and the timestamp are generated before the preview test. In local mode
  \<open>get_db_connection\<close> is called outside the \<open>try\<close> block, so its
  \<open>FileNotFoundError\<close> propagates; inside, \<open>IntegrityError\<close> gives
  \<open>True\<close> and every other exception gives \<open>False\<close>, each after closing the
  connection. In remote mode \<open>run_wrangler_command\<close> catches the exceptions of the
  external command itself, so the \<open>except\<close> branch is not reached.
\<close>

definition flag_session_for_review ::
  "env \<Rightarrow> pyval \<Rightarrow> string \<Rightarrow> string \<Rightarrow> bool \<Rightarrow> bool \<Rightarrow> world \<Rightarrow> (error + bool) \<times> world" where
  "flag_session_for_review E session_id issue_type description dry_run use_remote w =
     (let review_id = ''review_'' @ take 24 (uuid4_hex E (draws w));
          now = utcnow_isoformat E (draws w);
          w0 = w\<lparr>draws := draws w + 1\<rparr>
      in
      if dry_run then
        (Inr True,
         print_out (''  [DRY RUN] Would flag session '' @ py_str E session_id
                    @ '' for review: '' @ description) w0)
      else if use_remote then
        (let sql_file = ''.temp_insert_'' @ review_id @ ''.sql'';
             w1 = write_file sql_file w0;
             (result, w2) = run_wrangler_command E
                [''d1'', ''execute'', REMOTE_DB_NAME, ''--remote'', ''--file='' @ sql_file]
                (InsertText (insert_statement E review_id session_id issue_type description now)) w1
         in (Inr (result \<noteq> None), remove_file sql_file w2))
      else
        (case get_db_connection False w0 of
           (Inl e, w1) \<Rightarrow> (Inl e, w1)
         | (Inr None, w1) \<Rightarrow> (Inl AttributeError, w1)
         | (Inr (Some db), w1) \<Rightarrow>
             (case execute_insert db review_id session_id issue_type description now of
                Inr db' \<Rightarrow> (Inr True, conn_close (w1\<lparr>local_db := Some db'\<rparr>))
              | Inl (IntegrityError m) \<Rightarrow> (Inr True, conn_close w1)
              | Inl e \<Rightarrow>
                  (Inr False,
                   print_err (''  Error flagging session '' @ py_str E session_id @ '': ''
                              @ error_text e) (conn_close w1)))))"

subsection \<open>run_checks\<close>

definition check_functions ::
  "string \<Rightarrow> (env \<Rightarrow> bool \<Rightarrow> world \<Rightarrow> (error + pyval) \<times> world) option" where
  "check_functions criterion =
     (if criterion = ''missing_data'' then Some detect_missing_data_sessions
      else if criterion = ''duplicate_dates'' then Some detect_duplicate_dates
      else if criterion = ''incomplete_attendance'' then Some detect_incomplete_attendance
      else if criterion = ''auto_imported'' then Some detect_auto_imported_unreviewed
      else None)"

text \<open>The fields listed for \<open>missing_data\<close>: those whose value is not truthy.\<close>

definition missing_fields :: "(string \<times> pyval) list \<Rightarrow> string list" where
  "missing_fields session =
     (if \<not> truthy (dict_get session ''date'' PNone) then [''date''] else [])
     @ (if \<not> truthy (dict_get session ''type'' PNone) then [''type''] else [])
     @ (if \<not> truthy (dict_get session ''term_id'' PNone) then [''term_id''] else [])"

definition description_for :: "env \<Rightarrow> string \<Rightarrow> (string \<times> pyval) list \<Rightarrow> string" where
  "description_for E criterion session =
     (if criterion = ''missing_data'' then
        ''Missing required fields: '' @ join '', '' (missing_fields session)
      else if criterion = ''duplicate_dates'' then
        ''Duplicate session date: '' @ py_str E (dict_get session ''date'' (PStr ''unknown''))
      else if criterion = ''incomplete_attendance'' then
        ''Incomplete attendance: '' @ py_str E (dict_get session ''absence_count'' (PInt 0))
        @ '' absences recorded for '' @ py_str E (dict_get session ''term_member_count'' (PInt 0))
        @ '' term members''
      else ''Session flagged for '' @ criterion)"

text \<open>
  The loop over the candidates of one criterion, with the running \<open>flagged_count\<close>.
  \<open>session.get\<close> raises \<open>AttributeError\<close> on a candidate that is not a
  dictionary.
\<close>

fun flag_sessions ::
  "env \<Rightarrow> string \<Rightarrow> bool \<Rightarrow> bool \<Rightarrow> pyval list \<Rightarrow> nat \<Rightarrow> world \<Rightarrow> (error + nat) \<times> world" where
  "flag_sessions E criterion dry_run use_remote [] flagged_count w = (Inr flagged_count, w)"
| "flag_sessions E criterion dry_run use_remote (candidate # rest) flagged_count w =
     (case candidate of
        PDict session \<Rightarrow>
          (let session_id = dict_get session ''id'' PNone in
           if \<not> truthy session_id
           then flag_sessions E criterion dry_run use_remote rest flagged_count w
           else
             (case flag_session_for_review E session_id criterion
                     (description_for E criterion session) dry_run use_remote w of
                (Inl e, w1) \<Rightarrow> (Inl e, w1)
              | (Inr ok, w1) \<Rightarrow>
                  flag_sessions E criterion dry_run use_remote rest
                    (if ok then flagged_count + 1 else flagged_count) w1))
      | _ \<Rightarrow> (Inl AttributeError, w))"

record stats =
  found :: nat
  flagged :: nat

record summary =
  total_flagged :: nat
  by_criteria :: "(string \<times> stats) list"

text \<open>\<open>len(v)\<close> of a value that could be iterated.\<close>

definition py_len :: "pyval \<Rightarrow> nat" where
  "py_len v =
     (case v of
        PList xs \<Rightarrow> length xs
      | PDict kvs \<Rightarrow> length kvs
      | PStr s \<Rightarrow> length s
      | _ \<Rightarrow> 0)"

definition unknown_criterion_warning :: "string \<Rightarrow> string" where
  "unknown_criterion_warning criterion =
     ''Warning: Unknown criterion '' @ quoted criterion @ '', skipping.''"

text \<open>
  The loop over the requested criteria. \<open>results['by_criteria'][criterion] = ...\<close>
  keeps the position of a key that is already present, as \<open>AList.update\<close> does.
  An exception of a detection rule or of the writer ends the run.
\<close>

fun run_checks_loop ::
  "env \<Rightarrow> string list \<Rightarrow> bool \<Rightarrow> bool \<Rightarrow> summary \<Rightarrow> world \<Rightarrow> (error + summary) \<times> world" where
  "run_checks_loop E [] dry_run use_remote results w = (Inr results, w)"
| "run_checks_loop E (criterion # rest) dry_run use_remote results w =
     (case check_functions criterion of
        None \<Rightarrow>
          run_checks_loop E rest dry_run use_remote results
            (print_err (unknown_criterion_warning criterion) w)
      | Some check \<Rightarrow>
          (case check E use_remote
                  (print_out (''Running check: '' @ criterion @ ''...'') (print_out [] w)) of
             (Inl e, w1) \<Rightarrow> (Inl e, w1)
           | (Inr candidates, w1) \<Rightarrow>
               (case py_iter candidates of
                  Inl e \<Rightarrow> (Inl e, w1)
                | Inr items \<Rightarrow>
                    (case flag_sessions E criterion dry_run use_remote items 0 w1 of
                       (Inl e, w2) \<Rightarrow> (Inl e, w2)
                     | (Inr flagged_count, w2) \<Rightarrow>
                         run_checks_loop E rest dry_run use_remote
                           (results\<lparr>
                              by_criteria :=
                                AList.update criterion
                                  \<lparr>found = py_len candidates, flagged = flagged_count\<rparr>
                                  (by_criteria results),
                              total_flagged := total_flagged results + flagged_count\<rparr>)
                           (print_out (''  Found '' @ str_nat (py_len candidates)
                                       @ '' sessions, flagged '' @ str_nat flagged_count
                                       @ '' for review'') w2)))))"

definition run_checks ::
  "env \<Rightarrow> string list \<Rightarrow> bool \<Rightarrow> bool \<Rightarrow> world \<Rightarrow> (error + summary) \<times> world" where
  "run_checks E criteria dry_run use_remote w =
     run_checks_loop E criteria dry_run use_remote \<lparr>total_flagged = 0, by_criteria = []\<rparr> w"

subsection \<open>Notions used in the statements\<close>

text \<open>The dictionaries that the detection rules return for a session in local mode.\<close>

definition session_dict :: "session \<Rightarrow> pyval" where
  "session_dict s = dict_of_row (session_columns s)"

definition auto_imported_dict :: "session \<Rightarrow> pyval" where
  "auto_imported_dict s = dict_of_row (auto_imported_columns s)"


text \<open>
  A fetched row that the loop of \<open>detect_incomplete_attendance\<close> keeps: a dictionary
  whose \<open>term_member_count\<close> is not equal to 0, where a missing count is read as 0.
\<close>

definition is_dict :: "pyval \<Rightarrow> bool" where
  "is_dict v = (case v of PDict kvs \<Rightarrow> True | _ \<Rightarrow> False)"

definition has_members :: "pyval \<Rightarrow> bool" where
  "has_members candidate =
     (case candidate of
        PDict session \<Rightarrow> \<not> py_eq_zero (dict_get session ''term_member_count'' (PInt 0))
      | _ \<Rightarrow> False)"

text \<open>A stored value that Python does not take as true: \<open>NULL\<close>, 0 or the empty text.\<close>

definition not_truthy_sql :: "sqlval \<Rightarrow> bool" where
  "not_truthy_sql v = (v = SNull \<or> v = SInt 0 \<or> v = SText [])"

text \<open>
  A session has a resolved entry when a row of \<open>review_queue\<close> with item type
  \<open>session\<close> and status \<open>resolved\<close> refers to its identifier.
\<close>

definition has_resolved_entry :: "review list \<Rightarrow> session \<Rightarrow> bool" where
  "has_resolved_entry rq s =
     list_ex (\<lambda>r. rq_item_type r = SText ''session'' \<and> rq_status r = SText ''resolved''
                  \<and> rq_item_id r = s_id s) rq"

text \<open>The rows of \<open>review_queue\<close> in the local store.\<close>

definition persisted_reviews :: "world \<Rightarrow> review list" where
  "persisted_reviews w =
     (case local_db w of
        None \<Rightarrow> []
      | Some db \<Rightarrow> (case review_queue db of None \<Rightarrow> [] | Some rq \<Rightarrow> rq))"

text \<open>
  The rows of \<open>review_queue\<close> that flag one session for one issue kind, the row
  that \<open>flag_session_for_review\<close> inserts, and a table in which no two rows flag the
  same item for the same issue (what the uniqueness constraint of the schema maintains).
\<close>

definition flag_rows :: "string \<Rightarrow> string \<Rightarrow> review list \<Rightarrow> review list" where
  "flag_rows session_id issue_type rq =
     filter (\<lambda>r. rq_item_type r = SText ''session'' \<and> rq_item_id r = SText session_id
                 \<and> rq_issue_type r = SText issue_type) rq"

definition new_review :: "string \<Rightarrow> string \<Rightarrow> string \<Rightarrow> string \<Rightarrow> string \<Rightarrow> review" where
  "new_review review_id session_id issue_type description now =
     \<lparr> rq_id = SText review_id, rq_item_type = SText ''session'', rq_item_id = SText session_id,
       rq_issue_type = SText issue_type, rq_description = SText description,
       rq_status = SText ''pending'', rq_created_at = SText now \<rparr>"

fun unique_flags :: "review list \<Rightarrow> bool" where
  "unique_flags [] = True"
| "unique_flags (r # rs) = (\<not> list_ex (same_flag r) rs \<and> unique_flags rs)"

text \<open>
  A criterion is recognized when \<open>check_functions\<close> has it. The keys of a Python
  dictionary stand in the order of their first insertion.
\<close>

definition recognized :: "string \<Rightarrow> bool" where
  "recognized criterion = (check_functions criterion \<noteq> None)"

fun first_occurrences :: "string list \<Rightarrow> string list" where
  "first_occurrences [] = []"
| "first_occurrences (x # xs) = x # filter (\<lambda>y. y \<noteq> x) (first_occurrences xs)"

text \<open>
  Two outcomes are the same when the results are equal and the worlds differ at most in
  what was printed on standard error. \<open>with_err\<close> puts lines in front of standard
  error.
\<close>

definition same_outcome :: "'a \<times> world \<Rightarrow> 'a \<times> world \<Rightarrow> bool" where
  "same_outcome p q = (fst p = fst q \<and> (snd p)\<lparr>stderr := []\<rparr> = (snd q)\<lparr>stderr := []\<rparr>)"

definition with_err :: "string list \<Rightarrow> world \<Rightarrow> world" where
  "with_err e w = w\<lparr>stderr := e @ stderr w\<rparr>"

definition lift_err :: "string list \<Rightarrow> 'a \<times> world \<Rightarrow> 'a \<times> world" where
  "lift_err e p = (fst p, with_err e (snd p))"

text \<open>The sum of the per-criterion flagged counts.\<close>

definition flagged_sum :: "(string \<times> stats) list \<Rightarrow> nat" where
  "flagged_sum al = sum_list (map (\<lambda>p. flagged (snd p)) al)"

text \<open>
  From \<open>w\<close> to \<open>w'\<close> the local store is unchanged and the external command was
  only given detection queries, no \<open>INSERT\<close>.
\<close>

definition is_select :: "string list \<times> sqltext \<Rightarrow> bool" where
  "is_select entry = (case snd entry of SelectText q \<Rightarrow> True | InsertText t \<Rightarrow> False)"

definition only_queried :: "world \<Rightarrow> world \<Rightarrow> bool" where
  "only_queried w w' =
     (local_db w' = local_db w
      \<and> (\<exists>new. wrangler_log w' = wrangler_log w @ new \<and> list_all is_select new))"

text \<open>A candidate that is a dictionary with a truthy \<open>id\<close>: the ones the writer is called for.\<close>

definition has_truthy_id :: "pyval \<Rightarrow> bool" where
  "has_truthy_id candidate =
     (case candidate of PDict session \<Rightarrow> truthy (dict_get session ''id'' PNone) | _ \<Rightarrow> False)"

text \<open>
  The statistics of a criterion are accurate for a preview on \<open>w\<close> when \<open>found\<close>
  is the number of candidates its rule returns on the local store of \<open>w\<close> and
  \<open>flagged\<close> the number of those with a truthy \<open>id\<close>.
\<close>

definition accurate_preview :: "env \<Rightarrow> world \<Rightarrow> string \<Rightarrow> stats \<Rightarrow> bool" where
  "accurate_preview E w criterion st =
     (\<exists>check items. check_functions criterion = Some check
        \<and> fst (check E False w) = Inr (PList items)
        \<and> found st = length items
        \<and> flagged st = length (filter has_truthy_id items))"

text \<open>
  A candidate that the writer accepts in local mode: a dictionary with a truthy \<open>id\<close>
  that can be bound to the statement. The candidates of a criterion on the local store of
  \<open>w\<close>: what its rule returns there (none when the rule fails).
\<close>

definition writable :: "pyval \<Rightarrow> bool" where
  "writable candidate =
     (case candidate of
        PDict session \<Rightarrow>
          truthy (dict_get session ''id'' PNone)
          \<and> (case bind_param (dict_get session ''id'' PNone) of Inr v \<Rightarrow> True | Inl e \<Rightarrow> False)
      | _ \<Rightarrow> False)"

definition local_candidates :: "env \<Rightarrow> world \<Rightarrow> string \<Rightarrow> pyval list" where
  "local_candidates E w criterion =
     (case check_functions criterion of
        None \<Rightarrow> []
      | Some check \<Rightarrow> (case fst (check E False w) of Inr (PList items) \<Rightarrow> items | _ \<Rightarrow> []))"

text \<open>
  From \<open>db\<close> to \<open>db'\<close> nothing has changed but \<open>review_queue\<close>,
  which has got new rows at its end, all pending entries of item type \<open>session\<close>.
\<close>

definition appended_flags :: "database \<Rightarrow> database \<Rightarrow> bool" where
  "appended_flags db db' =
     (sessions db' = sessions db \<and> memberships db' = memberships db
      \<and> session_absences db' = session_absences db
      \<and> review_queue_unique db' = review_queue_unique db
      \<and> (case review_queue db of
            None \<Rightarrow> False
          | Some rq \<Rightarrow>
              (case review_queue db' of
                 None \<Rightarrow> False
               | Some rq' \<Rightarrow>
                   take (length rq) rq' = rq
                   \<and> list_all (\<lambda>r. rq_item_type r = SText ''session''
                                   \<and> rq_status r = SText ''pending'')
                        (drop (length rq) rq'))))"

subsection \<open>Example stores\<close>

definition session_A :: session where
  "session_A =
     \<lparr> s_id = SText ''A'', s_date = SText ''2024-01-01'', s_type = SText ''X'',
       s_term_id = SInt 1, s_ordinal_number = SInt 1, s_created_at = SText ''2024-01-05'' \<rparr>"

definition session_B :: session where
  "session_B =
     \<lparr> s_id = SText ''B'', s_date = SText ''2024-01-01'', s_type = SText ''Y'',
       s_term_id = SInt 1, s_ordinal_number = SInt 2, s_created_at = SText ''2024-01-06'' \<rparr>"

definition session_C :: session where
  "session_C =
     \<lparr> s_id = SText ''C'', s_date = SNull, s_type = SText ''X'',
       s_term_id = SInt 1, s_ordinal_number = SInt 3, s_created_at = SText ''2024-01-07'' \<rparr>"

definition session_D :: session where
  "session_D =
     \<lparr> s_id = SText ''D'', s_date = SText ''2023-12-01'', s_type = SText ''X'',
       s_term_id = SInt 2, s_ordinal_number = SInt 4, s_created_at = SText ''2024-01-04'' \<rparr>"

text \<open>A session with an empty date text and no type.\<close>

definition session_E :: session where
  "session_E =
     \<lparr> s_id = SText ''E'', s_date = SText [], s_type = SNull,
       s_term_id = SInt 1, s_ordinal_number = SInt 5, s_created_at = SText ''2024-01-08'' \<rparr>"

definition demo_reviews :: "review list" where
  "demo_reviews =
     [\<lparr> rq_id = SText ''review_1'', rq_item_type = SText ''session'', rq_item_id = SText ''A'',
        rq_issue_type = SText ''auto_imported'', rq_description = SText ''Session flagged for auto_imported'',
        rq_status = SText ''resolved'', rq_created_at = SText ''2024-01-09'' \<rparr>,
      \<lparr> rq_id = SText ''review_2'', rq_item_type = SText ''session'', rq_item_id = SText ''B'',
        rq_issue_type = SText ''auto_imported'', rq_description = SText ''Session flagged for auto_imported'',
        rq_status = SText ''pending'', rq_created_at = SText ''2024-01-09'' \<rparr>]"

text \<open>Term 1 has two members, term 2 has none.\<close>

definition demo_db :: database where
  "demo_db =
     \<lparr> sessions = Some [session_A, session_B, session_C, session_D],
       memberships = Some [\<lparr>m_term_id = SInt 1\<rparr>, \<lparr>m_term_id = SInt 1\<rparr>],
       session_absences =
         Some [\<lparr>sa_session_id = SText ''A'', sa_person_id = SText ''p1''\<rparr>,
               \<lparr>sa_session_id = SText ''A'', sa_person_id = SText ''p2''\<rparr>,
               \<lparr>sa_session_id = SText ''D'', sa_person_id = SText ''p1''\<rparr>],
       review_queue = Some demo_reviews,
       review_queue_unique = True \<rparr>"

definition world_of :: "database option \<Rightarrow> world" where
  "world_of db =
     \<lparr> local_db = db, open_conns = 0, temp_files = [], wrangler_log = [], draws = 0,
       stdout = [], stderr = [] \<rparr>"

definition demo_world :: world where
  "demo_world = world_of (Some demo_db)"

text \<open>A store whose only session has an empty date text and no type.\<close>

definition blank_date_db :: database where
  "blank_date_db =
     \<lparr> sessions = Some [session_E], memberships = Some [], session_absences = Some [],
       review_queue = Some [], review_queue_unique = True \<rparr>"

text \<open>A store with a resolved entry whose item reference is \<open>NULL\<close>.\<close>

definition null_item_reviews :: "review list" where
  "null_item_reviews =
     [\<lparr> rq_id = SText ''review_0'', rq_item_type = SText ''session'', rq_item_id = SNull,
        rq_issue_type = SText ''auto_imported'', rq_description = SNull,
        rq_status = SText ''resolved'', rq_created_at = SText ''2024-01-09'' \<rparr>]"

definition null_item_db :: database where
  "null_item_db =
     \<lparr> sessions = Some [session_A], memberships = Some [], session_absences = Some [],
       review_queue = Some null_item_reviews, review_queue_unique = True \<rparr>"

text \<open>A database file in which no table has been created yet.\<close>

definition unmigrated_db :: database where
  "unmigrated_db =
     \<lparr> sessions = None, memberships = None, session_absences = None,
       review_queue = None, review_queue_unique = False \<rparr>"

text \<open>A store with a session whose identifier is the empty text.\<close>

definition session_F :: session where
  "session_F =
     \<lparr> s_id = SText [], s_date = SNull, s_type = SText ''X'',
       s_term_id = SInt 1, s_ordinal_number = SInt 6, s_created_at = SText ''2024-01-09'' \<rparr>"

definition empty_id_db :: database where
  "empty_id_db =
     \<lparr> sessions = Some [session_C, session_F], memberships = Some [], session_absences = Some [],
       review_queue = Some [], review_queue_unique = True \<rparr>"

text \<open>An environment whose n-th generated identifier begins with the digits of n.\<close>

definition numbered_env :: env where
  "numbered_env = toy_env\<lparr>uuid4_hex := (\<lambda>n. str_nat n @ replicate 32 CHR ''0'')\<rparr>"

definition all_criteria :: "string list" where
  "all_criteria = [''missing_data'', ''duplicate_dates'', ''incomplete_attendance'', ''auto_imported'']"

section \<open>Properties\<close>

subsection \<open>parse_wrangler_output\<close>

lemma parse_json_body_cases:
  "parse_json_body E s =
     (case json_loads E s of
        Inl e \<Rightarrow> Inl e
      | Inr data \<Rightarrow>
          (case data of
             PList (PDict kvs # rest) \<Rightarrow>
               (case map_of kvs ''results'' of
                  Some r \<Rightarrow> Inr r
                | None \<Rightarrow> Inr data)
           | PList (x # rest) \<Rightarrow> Inr data
           | _ \<Rightarrow> Inr (PList [])))"
  by (simp add: parse_json_body_def list_getitem_def dict_getitem_def
      split: sum.splits option.splits pyval.splits list.splits)

lemma parse_wrangler_output_raises_iff:
  "parse_wrangler_output E output = Inl e
     \<longleftrightarrow> (\<exists>s. output = Some s \<and> s \<noteq> [] \<and> json_loads E s = Inl e \<and> e \<noteq> JSONDecodeError)"
proof (cases "output")
  case None
  then show ?thesis by (simp add: parse_wrangler_output_def)
next
  case (Some s)
  show ?thesis
  proof (cases "json_loads E s")
    case (Inl err)
    with Some show ?thesis
      by (cases err) (auto simp: parse_wrangler_output_def parse_json_body_cases)
  next
    case (Inr data)
    with Some show ?thesis
      by (auto simp: parse_wrangler_output_def parse_json_body_cases
          split: pyval.splits list.splits option.splits)
  qed
qed

text \<open>
  Claim C9, as amended. \<open>parse_wrangler_output\<close> raises exactly when the output is
  not empty and \<open>json.loads\<close> raises an exception other than
  \<open>JSONDecodeError\<close>, which it passes on; on every other input it returns a value.
  A missing or empty output, a text that \<open>json.loads\<close> rejects with
  \<open>JSONDecodeError\<close>, and a JSON value that is not a non-empty list give the empty
  list; a list whose first element is a dictionary with the key \<open>results\<close> gives the
  value stored under that key; every other non-empty list is returned unchanged.
\<close>

theorem parse_wrangler_output_cases:
  "(parse_wrangler_output E output = Inl e
      \<longleftrightarrow> (\<exists>t. output = Some t \<and> t \<noteq> [] \<and> json_loads E t = Inl e \<and> e \<noteq> JSONDecodeError))
   \<and> ((\<forall>t. output = Some t \<longrightarrow> json_loads E t = Inl JSONDecodeError \<or> (\<exists>data. json_loads E t = Inr data))
        \<longrightarrow> (\<exists>v. parse_wrangler_output E output = Inr v))
   \<and> parse_wrangler_output E None = Inr (PList [])
   \<and> parse_wrangler_output E (Some []) = Inr (PList [])
   \<and> (json_loads E s = Inl JSONDecodeError \<longrightarrow> parse_wrangler_output E (Some s) = Inr (PList []))
   \<and> (json_loads E s = Inr data \<and> \<not> is_nonempty_list data
        \<longrightarrow> parse_wrangler_output E (Some s) = Inr (PList []))
   \<and> (s \<noteq> [] \<and> json_loads E s = Inr (PList (PDict kvs # rest))
        \<and> map_of kvs ''results'' = Some r
        \<longrightarrow> parse_wrangler_output E (Some s) = Inr r)
   \<and> (s \<noteq> [] \<and> json_loads E s = Inr (PList (x # rest)) \<and> \<not> has_results x
        \<longrightarrow> parse_wrangler_output E (Some s) = Inr (PList (x # rest)))"
proof -
  have raises: "parse_wrangler_output E output = Inl e
      \<longleftrightarrow> (\<exists>t. output = Some t \<and> t \<noteq> [] \<and> json_loads E t = Inl e \<and> e \<noteq> JSONDecodeError)"
    by (rule parse_wrangler_output_raises_iff)
  have returns: "(\<forall>t. output = Some t \<longrightarrow> json_loads E t = Inl JSONDecodeError \<or> (\<exists>data. json_loads E t = Inr data))
        \<longrightarrow> (\<exists>v. parse_wrangler_output E output = Inr v)"
  proof
    assume ok: "\<forall>t. output = Some t \<longrightarrow> json_loads E t = Inl JSONDecodeError \<or> (\<exists>data. json_loads E t = Inr data)"
    have "parse_wrangler_output E output \<noteq> Inl err" for err
      using ok by (auto simp: parse_wrangler_output_raises_iff)
    then show "\<exists>v. parse_wrangler_output E output = Inr v"
      by (cases "parse_wrangler_output E output") auto
  qed
  have rejected: "json_loads E s = Inl JSONDecodeError
        \<longrightarrow> parse_wrangler_output E (Some s) = Inr (PList [])"
    by (simp add: parse_wrangler_output_def parse_json_body_cases)
  have other: "json_loads E s = Inr data \<and> \<not> is_nonempty_list data
        \<longrightarrow> parse_wrangler_output E (Some s) = Inr (PList [])"
    by (auto simp: parse_wrangler_output_def parse_json_body_cases is_nonempty_list_def
        split: pyval.splits list.splits)
  have envelope: "s \<noteq> [] \<and> json_loads E s = Inr (PList (PDict kvs # rest))
        \<and> map_of kvs ''results'' = Some r
        \<longrightarrow> parse_wrangler_output E (Some s) = Inr r"
    by (simp add: parse_wrangler_output_def parse_json_body_cases)
  have bare: "s \<noteq> [] \<and> json_loads E s = Inr (PList (x # rest)) \<and> \<not> has_results x
        \<longrightarrow> parse_wrangler_output E (Some s) = Inr (PList (x # rest))"
    by (auto simp: parse_wrangler_output_def parse_json_body_cases has_results_def
        split: pyval.splits option.splits)
  have missing: "parse_wrangler_output E None = Inr (PList [])"
    "parse_wrangler_output E (Some []) = Inr (PList [])"
    by (simp_all add: parse_wrangler_output_def)
  show ?thesis
    using raises returns missing rejected other envelope bare by (intro conjI)
qed

lemma toy_loads_long:
  assumes "4300 < length s"
  shows "toy_loads s =
     (if set s \<subseteq> set ''123456789'' then Inl ValueError
      else if 100000 \<le> length s \<and> set s \<subseteq> {CHR ''[''} then Inl RecursionError
      else Inl JSONDecodeError)"
proof -
  have "length t \<le> 4300 \<Longrightarrow> s \<noteq> t" for t
    using assms by auto
  then have "s \<noteq> ''[]''" "s \<noteq> ''null''" "s \<noteq> ''[1, 2]''" "s \<noteq> ''[{}]''"
    "s \<noteq> envelope_text" "s \<noteq> remote_rows_text" "s \<noteq> attendance_rows_text"
    by (simp_all add: envelope_text_def remote_rows_text_def attendance_rows_text_def)
  with assms show ?thesis
    by (simp add: toy_loads_def)
qed

lemma toy_loads_simps:
  "json_loads toy_env ''[1, 2]'' = Inr (PList [PInt 1, PInt 2])"
  "json_loads toy_env ''null'' = Inr PNone"
  "json_loads toy_env ''not json'' = Inl JSONDecodeError"
  "json_loads toy_env envelope_text = Inr (PList [PDict [(''results'', PList [PInt 7])], PInt 3])"
  by (simp_all add: toy_env_def toy_loads_def envelope_text_def remote_rows_text_def
      attendance_rows_text_def)

lemma toy_loads_huge: "json_loads toy_env huge_integer_text = Inl ValueError"
  by (simp add: toy_env_def huge_integer_text_def toy_loads_long)

text \<open>
  The five kinds of input on the stand-in, and the text of 5000 digits, whose
  \<open>ValueError\<close> is passed on.
\<close>

theorem parse_wrangler_output_cases_witness:
  "parse_wrangler_output toy_env None = Inr (PList [])
   \<and> parse_wrangler_output toy_env (Some ''not json'') = Inr (PList [])
   \<and> parse_wrangler_output toy_env (Some ''null'') = Inr (PList [])
   \<and> parse_wrangler_output toy_env (Some envelope_text) = Inr (PList [PInt 7])
   \<and> parse_wrangler_output toy_env (Some ''[1, 2]'') = Inr (PList [PInt 1, PInt 2])
   \<and> (\<exists>v. parse_wrangler_output toy_env (Some ''not json'') = Inr v)
   \<and> parse_wrangler_output toy_env (Some huge_integer_text) = Inl ValueError"
proof -
  have missing: "parse_wrangler_output toy_env None = Inr (PList [])"
    using parse_wrangler_output_cases [of toy_env None JSONDecodeError "[]" PNone "[]" "[]" PNone PNone]
    by simp
  have rejected: "parse_wrangler_output toy_env (Some ''not json'') = Inr (PList [])"
    using parse_wrangler_output_cases [of toy_env None JSONDecodeError "''not json''" PNone "[]" "[]" PNone PNone]
    by (simp add: toy_loads_simps)
  have other: "parse_wrangler_output toy_env (Some ''null'') = Inr (PList [])"
    using parse_wrangler_output_cases [of toy_env None JSONDecodeError "''null''" PNone "[]" "[]" PNone PNone]
    by (simp add: toy_loads_simps is_nonempty_list_def)
  have envelope: "parse_wrangler_output toy_env (Some envelope_text) = Inr (PList [PInt 7])"
    using parse_wrangler_output_cases [of toy_env None JSONDecodeError envelope_text PNone
        "[(''results'', PList [PInt 7])]" "[PInt 3]" "PList [PInt 7]" PNone]
    by (simp add: toy_loads_simps) (simp add: envelope_text_def)
  have bare: "parse_wrangler_output toy_env (Some ''[1, 2]'') = Inr (PList [PInt 1, PInt 2])"
    using parse_wrangler_output_cases [of toy_env None JSONDecodeError "''[1, 2]''" PNone "[]" "[PInt 2]" PNone "PInt 1"]
    by (simp add: toy_loads_simps has_results_def)
  have returns: "\<exists>v. parse_wrangler_output toy_env (Some ''not json'') = Inr v"
    using parse_wrangler_output_cases [of toy_env "Some ''not json''" JSONDecodeError "[]" PNone "[]" "[]" PNone PNone]
    by (simp add: toy_loads_simps)
  have nonempty: "huge_integer_text \<noteq> []"
    by (simp add: huge_integer_text_def)
  have raises: "parse_wrangler_output toy_env (Some huge_integer_text) = Inl ValueError"
    using parse_wrangler_output_cases [of toy_env "Some huge_integer_text" ValueError "[]" PNone "[]" "[]" PNone PNone]
      nonempty
    by (simp add: toy_loads_huge)
  show ?thesis
    using missing rejected other envelope bare returns raises by (intro conjI)
qed

text \<open>
  The claim C9 as stated fails: \<open>parse_wrangler_output\<close> is not total on strings.
  On a text of 5000 digits \<open>json.loads\<close> raises \<open>ValueError\<close> and on a text
  of 100000 opening brackets \<open>RecursionError\<close>; neither is a
  \<open>JSONDecodeError\<close>, and the function raises.
\<close>

theorem parse_wrangler_output_raises:
  "parse_wrangler_output toy_env (Some (replicate 5000 (CHR ''1''))) = Inl ValueError
   \<and> parse_wrangler_output toy_env (Some (replicate 100000 (CHR ''[''))) = Inl RecursionError"
  by (simp add: parse_wrangler_output_def parse_json_body_cases toy_env_def toy_loads_long)

subsection \<open>The detection rules in local mode\<close>

lemma execute_query_local:
  "local_db w = Some db \<Longrightarrow>
   execute_query E q False w =
     (case run_query q db of
        Inl e \<Rightarrow> (Inl e, w\<lparr>open_conns := open_conns w + 1\<rparr>)
      | Inr rows \<Rightarrow> (Inr (PList (map dict_of_row rows)), w))"
  by (simp add: execute_query_def get_db_connection_def conn_close_def split: sum.splits)

lemma truthy_py_of_sql: "truthy (py_of_sql v) = (\<not> not_truthy_sql v)"
  by (cases v) (simp_all add: not_truthy_sql_def)

lemma py_of_sql_inj: "py_of_sql a = py_of_sql b \<Longrightarrow> a = b"
  by (cases a; cases b) simp_all

lemma session_dict_eq:
  "session_dict s = session_dict t \<Longrightarrow>
   s_date s = s_date t \<and> s_type s = s_type t \<and> s_term_id s = s_term_id t \<and> s_id s = s_id t"
  by (auto simp: session_dict_def dict_of_row_def row_dict_def session_columns_def dest: py_of_sql_inj)

lemma is_true_sql_in: "is_true (sql_in x ys) = (x \<noteq> SNull \<and> x \<in> set ys)"
  by (auto simp: is_true_def sql_in_def)

lemma is_true_sql_not_in:
  "is_true (sql_not (sql_in x ys)) = (ys = [] \<or> (x \<noteq> SNull \<and> x \<notin> set ys \<and> SNull \<notin> set ys))"
  by (auto simp: is_true_def sql_in_def sql_not_def)

text \<open>
  Claim C3, as amended. In local mode, with the \<open>sessions\<close> table present, the
  \<open>missing_data\<close> rule returns a session if and only if its date, its type or its
  term reference is \<open>NULL\<close>. For every returned session the description is
  \<open>Missing required fields:\<close> followed by the fields among date, type and term_id
  whose value Python does not take as true (\<open>NULL\<close>, the integer 0 or the empty
  text), in this order and joined with a comma and a space. Every \<open>NULL\<close> field is
  among them.
\<close>

theorem missing_data_result:
  assumes "local_db w = Some db" and "sessions db = Some ss"
  shows "\<exists>rows. detect_missing_data_sessions E False w = (Inr (PList (map session_dict rows)), w)
     \<and> rows = filter (\<lambda>s. s_date s = SNull \<or> s_type s = SNull \<or> s_term_id s = SNull) ss
     \<and> (\<forall>s \<in> set ss. session_dict s \<in> set (map session_dict rows)
            \<longleftrightarrow> (s_date s = SNull \<or> s_type s = SNull \<or> s_term_id s = SNull))
     \<and> (\<forall>s \<in> set rows.
           description_for E ''missing_data'' (row_dict (session_columns s)) =
             ''Missing required fields: '' @
             join '', '' (map fst (filter (\<lambda>c. not_truthy_sql (snd c))
                [(''date'', s_date s), (''type'', s_type s), (''term_id'', s_term_id s)])))"
proof -
  let ?P = "\<lambda>s. s_date s = SNull \<or> s_type s = SNull \<or> s_term_id s = SNull"
  have run: "detect_missing_data_sessions E False w = (Inr (PList (map session_dict (filter ?P ss))), w)"
    using assms
    by (simp add: detect_missing_data_sessions_def execute_query_local select_missing_data_def
        session_dict_def comp_def)
  have appears: "session_dict s \<in> set (map session_dict (filter ?P ss)) \<longleftrightarrow> ?P s"
    if "s \<in> set ss" for s
  proof
    assume "session_dict s \<in> set (map session_dict (filter ?P ss))"
    then obtain t where "t \<in> set ss" "?P t" "session_dict s = session_dict t"
      by auto
    then show "?P s"
      using session_dict_eq [of s t] by auto
  next
    assume "?P s"
    with that show "session_dict s \<in> set (map session_dict (filter ?P ss))"
      by auto
  qed
  have descr: "description_for E ''missing_data'' (row_dict (session_columns s)) =
             ''Missing required fields: '' @
             join '', '' (map fst (filter (\<lambda>c. not_truthy_sql (snd c))
                [(''date'', s_date s), (''type'', s_type s), (''term_id'', s_term_id s)]))" for s
    by (simp add: description_for_def missing_fields_def row_dict_def session_columns_def
        dict_get_def truthy_py_of_sql)
  show ?thesis
    using run appears descr by blast
qed


lemma duplicated_dates_set:
  "set (duplicated_dates ss) =
     {d. d \<noteq> SNull \<and> d \<in> s_date ` set ss \<and> 1 < length (filter (\<lambda>s. s_date s = d) ss)}"
  by (auto simp: duplicated_dates_def)

lemma in_duplicated_dates:
  "s \<in> set ss \<Longrightarrow>
   is_true (sql_in (s_date s) (duplicated_dates ss)) =
     (s_date s \<noteq> SNull \<and> 2 \<le> length (filter (\<lambda>t. s_date t = s_date s) ss))"
  by (auto simp: is_true_sql_in duplicated_dates_set)

lemma order_by_sorted: "sorted (map f (order_by f xs))"
  by (simp add: order_by_def)

lemma order_by_mset: "mset (order_by f xs) = mset xs"
  by (simp add: order_by_def)

lemma order_by_desc_sorted: "sorted (rev (map f (order_by_desc f xs)))"
  by (simp add: order_by_desc_def rev_map [symmetric])


lemma order_by_desc_mset: "mset (order_by_desc f xs) = mset xs"
  by (simp add: order_by_desc_def)

text \<open>
  Claim C4. In local mode, with the \<open>sessions\<close> table present, the
  \<open>duplicate_dates\<close> rule returns exactly the sessions whose date is not
  \<open>NULL\<close> and is the date of at least two sessions, each once: every session with
  such a date appears, no session with a unique date and no session with a \<open>NULL\<close>
  date appears. The result is ordered by date ascending.
\<close>

theorem duplicate_dates_result:
  assumes "local_db w = Some db" and "sessions db = Some ss"
  shows "\<exists>rows. detect_duplicate_dates E False w = (Inr (PList (map session_dict rows)), w)
     \<and> mset rows = mset (filter (\<lambda>s. s_date s \<noteq> SNull
                                 \<and> 2 \<le> length (filter (\<lambda>t. s_date t = s_date s) ss)) ss)
     \<and> (\<forall>s \<in> set ss. s \<in> set rows
            \<longleftrightarrow> (s_date s \<noteq> SNull \<and> 2 \<le> length (filter (\<lambda>t. s_date t = s_date s) ss)))
     \<and> sorted (map s_date rows)"
proof -
  let ?P = "\<lambda>s. is_true (sql_in (s_date s) (duplicated_dates ss))"
  let ?Q = "\<lambda>s. s_date s \<noteq> SNull \<and> 2 \<le> length (filter (\<lambda>t. s_date t = s_date s) ss)"
  let ?rows = "order_by s_date (filter ?P ss)"
  have same: "filter ?P ss = filter ?Q ss"
    by (rule filter_cong) (simp_all add: in_duplicated_dates)
  have run: "detect_duplicate_dates E False w = (Inr (PList (map session_dict ?rows)), w)"
    using assms
    by (simp add: detect_duplicate_dates_def execute_query_local select_duplicate_dates_def
        session_dict_def comp_def)
  have perm: "mset ?rows = mset (filter ?Q ss)"
    by (simp only: order_by_mset same)
  have members: "\<forall>s \<in> set ss. s \<in> set ?rows \<longleftrightarrow> ?Q s"
  proof
    fix s assume "s \<in> set ss"
    have "set ?rows = set (filter ?Q ss)"
      using perm by (rule mset_eq_setD)
    with \<open>s \<in> set ss\<close> show "s \<in> set ?rows \<longleftrightarrow> ?Q s"
      by simp
  qed
  show ?thesis
    using run perm members order_by_sorted [of s_date "filter ?P ss"] by blast
qed

text \<open>
  The \<open>auto_imported\<close> rule on a store without \<open>NULL\<close> references: in
  local mode, when no session identifier is \<open>NULL\<close> and no resolved entry of item
  type \<open>session\<close> has a \<open>NULL\<close> item reference, the rule returns exactly
  the sessions without a resolved entry, each once, ordered by creation timestamp
  descending. A session whose entries are all pending is returned.
\<close>

lemma auto_imported_result:
  assumes "local_db w = Some db" and "sessions db = Some ss" and "review_queue db = Some rq"
    and "\<forall>s \<in> set ss. s_id s \<noteq> SNull"
    and "\<forall>r \<in> set rq. rq_item_type r = SText ''session'' \<and> rq_status r = SText ''resolved''
           \<longrightarrow> rq_item_id r \<noteq> SNull"
  shows "\<exists>rows. detect_auto_imported_unreviewed E False w
                  = (Inr (PList (map auto_imported_dict rows)), w)
     \<and> mset rows = mset (filter (\<lambda>s. \<not> has_resolved_entry rq s) ss)
     \<and> (\<forall>s \<in> set ss. s \<in> set rows \<longleftrightarrow> \<not> has_resolved_entry rq s)
     \<and> (\<forall>s \<in> set ss. (\<forall>r \<in> set rq. rq_item_id r = s_id s \<longrightarrow> rq_status r = SText ''pending'')
            \<longrightarrow> s \<in> set rows)
     \<and> sorted (rev (map s_created_at rows))"
proof -
  let ?ids = "resolved_item_ids rq"
  let ?P = "\<lambda>s. is_true (sql_not (sql_in (s_id s) ?ids))"
  let ?Q = "\<lambda>s. \<not> has_resolved_entry rq s"
  let ?rows = "order_by_desc s_created_at (filter ?P ss)"
  have no_null: "SNull \<notin> set ?ids"
    using assms(5) by (auto simp: resolved_item_ids_def sql_eq_def)
  have resolved: "has_resolved_entry rq s \<longleftrightarrow> s_id s \<in> set ?ids" for s
    by (force simp: has_resolved_entry_def resolved_item_ids_def sql_eq_def list_ex_iff)
  have same: "filter ?P ss = filter ?Q ss"
  proof (rule filter_cong)
    fix s assume "s \<in> set ss"
    then have "s_id s \<noteq> SNull"
      using assms(4) by blast
    then show "?P s = ?Q s"
      using no_null by (auto simp: is_true_sql_not_in resolved)
  qed simp
  have run: "detect_auto_imported_unreviewed E False w
               = (Inr (PList (map auto_imported_dict ?rows)), w)"
    using assms(1-3)
    by (simp add: detect_auto_imported_unreviewed_def execute_query_local
        select_auto_imported_def auto_imported_dict_def comp_def)
  have perm: "mset ?rows = mset (filter ?Q ss)"
    by (simp only: order_by_desc_mset same)
  have members: "\<forall>s \<in> set ss. s \<in> set ?rows \<longleftrightarrow> ?Q s"
  proof
    fix s assume "s \<in> set ss"
    have "set ?rows = set (filter ?Q ss)"
      using perm by (rule mset_eq_setD)
    with \<open>s \<in> set ss\<close> show "s \<in> set ?rows \<longleftrightarrow> ?Q s"
      by simp
  qed
  have pending: "\<forall>s \<in> set ss.
       (\<forall>r \<in> set rq. rq_item_id r = s_id s \<longrightarrow> rq_status r = SText ''pending'')
         \<longrightarrow> s \<in> set ?rows"
  proof (intro ballI impI)
    fix s assume "s \<in> set ss"
      and only: "\<forall>r \<in> set rq. rq_item_id r = s_id s \<longrightarrow> rq_status r = SText ''pending''"
    have "\<not> has_resolved_entry rq s"
      using only by (auto simp: has_resolved_entry_def list_ex_iff)
    with members \<open>s \<in> set ss\<close> show "s \<in> set ?rows"
      by blast
  qed
  show ?thesis
    using run perm members pending order_by_desc_sorted [of s_created_at "filter ?P ss"]
    by blast
qed






lemma skip_memberless_filter:
  "list_all is_dict items \<Longrightarrow> skip_memberless items = Inr (filter has_members items)"
  by (induction items)
     (auto simp: is_dict_def has_members_def py_get_def split: pyval.splits)

lemma skip_memberless_not_dict:
  "\<not> list_all is_dict items \<Longrightarrow> skip_memberless items = Inl AttributeError"
  by (induction items)
     (auto simp: is_dict_def has_members_def py_get_def split: pyval.splits sum.splits)





lemma detect_incomplete_attendance_loop:
  assumes "execute_query E IncompleteAttendanceQuery use_remote w = (Inr fetched, w1)"
    and "py_iter fetched = Inr items"
  shows "detect_incomplete_attendance E use_remote w
           = (if list_all is_dict items then Inr (PList (filter has_members items))
              else Inl AttributeError, w1)"
  using assms
  by (cases "list_all is_dict items")
     (simp_all add: detect_incomplete_attendance_def skip_memberless_filter
        skip_memberless_not_dict)



lemma demo_simps:
  "local_db (world_of d) = d"
  "sessions demo_db = Some [session_A, session_B, session_C, session_D]"
  "review_queue demo_db = Some demo_reviews"
  by (simp_all add: world_of_def demo_db_def)

text \<open>On the example store only session C, whose date is \<open>NULL\<close>, is returned.\<close>

theorem missing_data_result_witness:
  "local_db demo_world = Some demo_db
   \<and> sessions demo_db = Some [session_A, session_B, session_C, session_D]
   \<and> detect_missing_data_sessions toy_env False demo_world
       = (Inr (PList [session_dict session_C]), demo_world)
   \<and> description_for toy_env ''missing_data'' (row_dict (session_columns session_C))
       = ''Missing required fields: date''"
  using missing_data_result [of demo_world demo_db "[session_A, session_B, session_C, session_D]" toy_env]
  by (simp add: demo_world_def demo_simps session_A_def session_B_def session_C_def session_D_def
      not_truthy_sql_def)

text \<open>
  The claim C3 as stated fails: session E has an empty date text, which is not
  \<open>NULL\<close>, and no type. It is returned because of its type, and the description
  that \<open>run_checks\<close> writes to \<open>review_queue\<close> names the date as well.
\<close>

theorem missing_data_names_empty_date:
  "detect_missing_data_sessions toy_env False (world_of (Some blank_date_db))
     = (Inr (PList [session_dict session_E]), world_of (Some blank_date_db))
   \<and> s_date session_E \<noteq> SNull
   \<and> s_type session_E = SNull
   \<and> description_for toy_env ''missing_data'' (row_dict (session_columns session_E))
       = ''Missing required fields: date, type''
   \<and> map rq_description (persisted_reviews
          (snd (run_checks toy_env [''missing_data''] False False (world_of (Some blank_date_db)))))
       = [SText ''Missing required fields: date, type'']"
proof -
  have found: "detect_missing_data_sessions toy_env False (world_of (Some blank_date_db))
     = (Inr (PList [session_dict session_E]), world_of (Some blank_date_db))"
    by code_simp
  have fields: "s_date session_E \<noteq> SNull" "s_type session_E = SNull"
    by (simp_all add: session_E_def)
  have described: "description_for toy_env ''missing_data'' (row_dict (session_columns session_E))
       = ''Missing required fields: date, type''"
    by code_simp
  have written: "map rq_description (persisted_reviews
          (snd (run_checks toy_env [''missing_data''] False False (world_of (Some blank_date_db)))))
       = [SText ''Missing required fields: date, type'']"
    by code_simp
  show ?thesis
    using found fields described written by (intro conjI)
qed


lemmas session_defs = session_A_def session_B_def session_C_def session_D_def

lemma demo_hyps:
  "local_db demo_world = Some demo_db"
  "session_absences demo_db = Some
         [\<lparr>sa_session_id = SText ''A'', sa_person_id = SText ''p1''\<rparr>,
               \<lparr>sa_session_id = SText ''A'', sa_person_id = SText ''p2''\<rparr>,
               \<lparr>sa_session_id = SText ''D'', sa_person_id = SText ''p1''\<rparr>]"
  "memberships demo_db = Some [\<lparr>m_term_id = SInt 1\<rparr>, \<lparr>m_term_id = SInt 1\<rparr>]"
  by (simp_all add: demo_world_def world_of_def demo_db_def)

text \<open>On the example store sessions A and B share a date; C has none and D has its own.\<close>

theorem duplicate_dates_result_witness:
  "local_db demo_world = Some demo_db
   \<and> sessions demo_db = Some [session_A, session_B, session_C, session_D]
   \<and> detect_duplicate_dates toy_env False demo_world
       = (Inr (PList [session_dict session_A, session_dict session_B]), demo_world)
   \<and> (\<exists>rows. detect_duplicate_dates toy_env False demo_world
                 = (Inr (PList (map session_dict rows)), demo_world)
        \<and> mset rows = mset [session_A, session_B]
        \<and> sorted (map s_date rows))"
proof -
  let ?ss = "[session_A, session_B, session_C, session_D]"
  have run: "detect_duplicate_dates toy_env False demo_world
       = (Inr (PList [session_dict session_A, session_dict session_B]), demo_world)"
    by code_simp
  have sel: "filter (\<lambda>s. s_date s \<noteq> SNull
               \<and> 2 \<le> length (filter (\<lambda>t. s_date t = s_date s) ?ss)) ?ss
             = [session_A, session_B]"
    by (simp add: session_defs)
  from duplicate_dates_result [OF demo_hyps(1) demo_simps(2), of toy_env]
  obtain rows where "detect_duplicate_dates toy_env False demo_world
                 = (Inr (PList (map session_dict rows)), demo_world)"
    and "mset rows = mset [session_A, session_B]" and "sorted (map s_date rows)"
    unfolding sel by blast
  then show ?thesis
    using run demo_hyps(1) demo_simps(2) by blast
qed

text \<open>On the example store A has a resolved entry and B a pending one.\<close>

lemma auto_imported_result_example:
  "local_db demo_world = Some demo_db
   \<and> sessions demo_db = Some [session_A, session_B, session_C, session_D]
   \<and> review_queue demo_db = Some demo_reviews
   \<and> list_all (\<lambda>s. s_id s \<noteq> SNull) [session_A, session_B, session_C, session_D]
   \<and> list_all (\<lambda>r. rq_item_id r \<noteq> SNull) demo_reviews
   \<and> detect_auto_imported_unreviewed toy_env False demo_world
       = (Inr (PList [auto_imported_dict session_C, auto_imported_dict session_B,
                      auto_imported_dict session_D]), demo_world)
   \<and> (\<exists>rows. detect_auto_imported_unreviewed toy_env False demo_world
                 = (Inr (PList (map auto_imported_dict rows)), demo_world)
        \<and> mset rows = mset [session_B, session_C, session_D]
        \<and> session_B \<in> set rows
        \<and> sorted (rev (map s_created_at rows)))"
proof -
  let ?ss = "[session_A, session_B, session_C, session_D]"
  have run: "detect_auto_imported_unreviewed toy_env False demo_world
       = (Inr (PList [auto_imported_dict session_C, auto_imported_dict session_B,
                      auto_imported_dict session_D]), demo_world)"
    by code_simp
  have ids: "\<forall>s \<in> set ?ss. s_id s \<noteq> SNull"
    by (simp add: session_defs)
  have items: "\<forall>r \<in> set demo_reviews.
       rq_item_type r = SText ''session'' \<and> rq_status r = SText ''resolved''
         \<longrightarrow> rq_item_id r \<noteq> SNull"
    by (simp add: demo_reviews_def)
  have sel: "filter (\<lambda>s. \<not> has_resolved_entry demo_reviews s) ?ss
             = [session_B, session_C, session_D]"
    by (simp add: session_defs has_resolved_entry_def demo_reviews_def)
  from auto_imported_result [OF demo_hyps(1) demo_simps(2) demo_simps(3) ids items, of toy_env]
  obtain rows where "detect_auto_imported_unreviewed toy_env False demo_world
                 = (Inr (PList (map auto_imported_dict rows)), demo_world)"
    and perm: "mset rows = mset [session_B, session_C, session_D]"
    and "sorted (rev (map s_created_at rows))"
    unfolding sel by blast
  moreover have "session_B \<in> set rows"
    using mset_eq_setD [OF perm] by simp
  moreover have "list_all (\<lambda>s. s_id s \<noteq> SNull) ?ss"
    by (simp add: session_defs)
  moreover have "list_all (\<lambda>r. rq_item_id r \<noteq> SNull) demo_reviews"
    by (simp add: demo_reviews_def)
  ultimately show ?thesis
    using run demo_hyps(1) demo_simps(2) demo_simps(3) by blast
qed

text \<open>
  Claim C5. The rule does not return exactly the sessions without a resolved entry. Its
  condition is \<open>id NOT IN (SELECT item_id ...)\<close>: when a resolved entry of item
  type \<open>session\<close> has a \<open>NULL\<close> item reference, the condition is
  \<open>NULL\<close>, not true, for every session that the entries do not name. On the
  store below the only resolved entry refers to no session, session A has no resolved
  entry, and the rule returns nothing; without that entry it returns A.
\<close>

theorem auto_imported_null_item:
  "detect_auto_imported_unreviewed toy_env False (world_of (Some null_item_db))
     = (Inr (PList []), world_of (Some null_item_db))
   \<and> sessions null_item_db = Some [session_A]
   \<and> review_queue null_item_db = Some null_item_reviews
   \<and> \<not> has_resolved_entry null_item_reviews session_A
   \<and> fst (detect_auto_imported_unreviewed toy_env False
            (world_of (Some (null_item_db\<lparr>review_queue := Some []\<rparr>))))
       = Inr (PList [auto_imported_dict session_A])"
  by code_simp


subsection \<open>The connection of execute_query\<close>

lemma execute_query_error_keeps_connection:
  "local_db w = Some db \<Longrightarrow> run_query q db = Inl e \<Longrightarrow>
   execute_query E q False w = (Inl e, w\<lparr>open_conns := open_conns w + 1\<rparr>)"
  by (simp add: execute_query_local)

text \<open>
  Claim C7 says that \<open>execute_query\<close> closes the connection on every path in local
  mode. On a database file without the \<open>sessions\<close> table the statement raises
  \<open>OperationalError\<close>, and the connection that was opened is not closed: the
  local branch has no \<open>finally\<close>.
\<close>

theorem execute_query_leaves_connection_open:
  "execute_query toy_env MissingDataQuery False (world_of (Some unmigrated_db))
     = (Inl (OperationalError ''no such table: sessions''),
        (world_of (Some unmigrated_db))\<lparr>open_conns := 1\<rparr>)"
  by code_simp

subsection \<open>The writer\<close>

lemma same_flag_new:
  "same_flag r (new_review i s k d n) =
     (rq_item_type r = SText ''session'' \<and> rq_item_id r = SText s \<and> rq_issue_type r = SText k)"
  by (auto simp: same_flag_def new_review_def sql_eq_def)

lemma unique_flags_at_most_one:
  "unique_flags rq \<Longrightarrow> length (flag_rows s k rq) \<le> 1"
proof (induction rq)
  case Nil
  then show ?case by (simp add: flag_rows_def)
next
  case (Cons r rq)
  show ?case
  proof (cases "rq_item_type r = SText ''session'' \<and> rq_item_id r = SText s
                 \<and> rq_issue_type r = SText k")
    case True
    have "\<forall>r' \<in> set rq. \<not> same_flag r r'"
      using Cons.prems by (simp add: list_ex_iff)
    then have "flag_rows s k rq = []"
      using True by (auto simp: flag_rows_def filter_empty_conv same_flag_def sql_eq_def)
    with True show ?thesis by (simp add: flag_rows_def)
  next
    case False
    with Cons show ?thesis by (auto simp: flag_rows_def)
  qed
qed

lemma insert_new_review:
  assumes "review_queue db = Some rq"
  shows "insert_review db (new_review i s k d n) =
     (if list_ex (\<lambda>r. rq_id r = SText i) rq
      then Inl (IntegrityError ''UNIQUE constraint failed: review_queue.id'')
      else if review_queue_unique db \<and> flag_rows s k rq \<noteq> []
      then Inl (IntegrityError
             ''UNIQUE constraint failed: review_queue.item_type, review_queue.item_id, review_queue.issue_type'')
      else Inr (db\<lparr>review_queue := Some (rq @ [new_review i s k d n])\<rparr>))"
proof -
  have flags: "list_ex (\<lambda>r. same_flag r (new_review i s k d n)) rq = (flag_rows s k rq \<noteq> [])"
    by (auto simp: same_flag_new flag_rows_def list_ex_iff filter_empty_conv)
  have "sql_eq v (rq_id (new_review i s k d n)) = (v = SText i)" for v
    by (auto simp: sql_eq_def new_review_def)
  then have ids: "list_ex (\<lambda>r. sql_eq (rq_id r) (rq_id (new_review i s k d n))) rq
               = list_ex (\<lambda>r. rq_id r = SText i) rq"
    by simp
  show ?thesis
    using assms by (simp only: insert_review_def ids flags option.case)
qed

lemma execute_insert_str:
  "review_queue db = Some rq \<Longrightarrow>
   execute_insert db i (PStr s) k d n = insert_review db (new_review i s k d n)"
  by (simp add: execute_insert_def bind_param_def new_review_def)

lemma flag_local:
  assumes "local_db w = Some db" and "review_queue db = Some rq"
  shows "flag_session_for_review E (PStr s) k d False False w =
     (if list_ex (\<lambda>r. rq_id r = SText (''review_'' @ take 24 (uuid4_hex E (draws w)))) rq
            \<or> (review_queue_unique db \<and> flag_rows s k rq \<noteq> [])
         then (Inr True, w\<lparr>draws := draws w + 1\<rparr>)
         else (Inr True,
               w\<lparr>draws := draws w + 1,
                 local_db := Some (db\<lparr>review_queue := Some (rq @
                   [new_review (''review_'' @ take 24 (uuid4_hex E (draws w))) s k d
                      (utcnow_isoformat E (draws w))])\<rparr>)\<rparr>))"
proof -
  have conn: "get_db_connection False (w\<lparr>draws := Suc (draws w)\<rparr>)
                = (Inr (Some db), w\<lparr>draws := Suc (draws w), open_conns := Suc (open_conns w)\<rparr>)"
    using assms(1) by (simp add: get_db_connection_def)
  have ins: "execute_insert db i (PStr s) k d n =
     (if list_ex (\<lambda>r. rq_id r = SText i) rq
      then Inl (IntegrityError ''UNIQUE constraint failed: review_queue.id'')
      else if review_queue_unique db \<and> flag_rows s k rq \<noteq> []
      then Inl (IntegrityError
             ''UNIQUE constraint failed: review_queue.item_type, review_queue.item_id, review_queue.issue_type'')
      else Inr (db\<lparr>review_queue := Some (rq @ [new_review i s k d n])\<rparr>))" for i n
    by (simp only: execute_insert_str [OF assms(2)] insert_new_review [OF assms(2)])
  show ?thesis
    by (auto simp add: flag_session_for_review_def Let_def conn ins conn_close_def)
qed

lemma flag_existing:
  assumes "local_db w = Some db" and "review_queue db = Some rq"
    and "review_queue_unique db" and "flag_rows s k rq \<noteq> []"
  shows "flag_session_for_review E (PStr s) k d False False w
           = (Inr True, w\<lparr>draws := draws w + 1\<rparr>)"
  using assms(3,4) by (simp add: flag_local [OF assms(1,2)])

lemma flag_new:
  assumes "local_db w = Some db" and "review_queue db = Some rq"
    and "flag_rows s k rq = []"
    and "\<not> list_ex (\<lambda>r. rq_id r = SText (''review_'' @ take 24 (uuid4_hex E (draws w)))) rq"
  shows "flag_session_for_review E (PStr s) k d False False w
           = (Inr True,
              w\<lparr>draws := draws w + 1,
                local_db := Some (db\<lparr>review_queue := Some (rq @
                   [new_review (''review_'' @ take 24 (uuid4_hex E (draws w))) s k d
                      (utcnow_isoformat E (draws w))])\<rparr>)\<rparr>)"
  using assms(3,4) by (simp add: flag_local [OF assms(1,2)])

text \<open>
  Claim C1. In local mode with preview off, on a store whose schema declares the
  uniqueness constraint over \<open>(item_type, item_id, issue_type)\<close> and whose rows
  satisfy it, flagging the same session for the same issue kind twice in a row returns
  \<open>True\<close> both times and leaves exactly one row of \<open>review_queue\<close> for that
  session and issue kind. The identifier generated for the first call is taken to be
  fresh, as \<open>uuid4\<close> promises; the second call needs no such assumption.
\<close>

theorem flag_twice_one_row:
  assumes "local_db w = Some db" and "review_queue db = Some rq"
    and "review_queue_unique db" and "unique_flags rq"
    and "\<not> list_ex (\<lambda>r. rq_id r = SText (''review_'' @ take 24 (uuid4_hex E (draws w)))) rq"
  shows "\<exists>w1 w2.
       flag_session_for_review E (PStr session_id) issue_type description1 False False w
         = (Inr True, w1)
     \<and> flag_session_for_review E (PStr session_id) issue_type description2 False False w1
         = (Inr True, w2)
     \<and> length (flag_rows session_id issue_type (persisted_reviews w2)) = 1"
proof (cases "flag_rows session_id issue_type rq = []")
  case True
  define new where "new = new_review (''review_'' @ take 24 (uuid4_hex E (draws w))) session_id
                issue_type description1 (utcnow_isoformat E (draws w))"
  define db1 where "db1 = db\<lparr>review_queue := Some (rq @ [new])\<rparr>"
  define w1 where "w1 = w\<lparr>draws := draws w + 1, local_db := Some db1\<rparr>"
  have first: "flag_session_for_review E (PStr session_id) issue_type description1 False False w
                 = (Inr True, w1)"
    unfolding w1_def db1_def new_def by (rule flag_new [OF assms(1,2) True assms(5)])
  have rows: "flag_rows session_id issue_type (rq @ [new]) = [new]"
    using True by (simp add: flag_rows_def new_def new_review_def)
  have db1: "local_db w1 = Some db1" "review_queue db1 = Some (rq @ [new])"
    "review_queue_unique db1"
    using assms(3) by (simp_all add: w1_def db1_def)
  have "flag_rows session_id issue_type (rq @ [new]) \<noteq> []"
    using rows by simp
  then have second:
    "flag_session_for_review E (PStr session_id) issue_type description2 False False w1
       = (Inr True, w1\<lparr>draws := draws w1 + 1\<rparr>)"
    by (rule flag_existing [OF db1])
  have "persisted_reviews (w1\<lparr>draws := draws w1 + 1\<rparr>) = rq @ [new]"
    using db1(1,2) by (simp add: persisted_reviews_def)
  then have "length (flag_rows session_id issue_type
               (persisted_reviews (w1\<lparr>draws := draws w1 + 1\<rparr>))) = 1"
    using rows by simp
  with first second show ?thesis
    by blast
next
  case False
  define w1 where "w1 = w\<lparr>draws := draws w + 1\<rparr>"
  have first: "flag_session_for_review E (PStr session_id) issue_type description1 False False w
                 = (Inr True, w1)"
    unfolding w1_def by (rule flag_existing [OF assms(1-3) False])
  have db1: "local_db w1 = Some db"
    using assms(1) by (simp add: w1_def)
  have second: "flag_session_for_review E (PStr session_id) issue_type description2 False False w1
                 = (Inr True, w1\<lparr>draws := draws w1 + 1\<rparr>)"
    by (rule flag_existing [OF db1 assms(2,3) False])
  have "persisted_reviews (w1\<lparr>draws := draws w1 + 1\<rparr>) = rq"
    using db1 assms(2) by (simp add: persisted_reviews_def)
  moreover have "length (flag_rows session_id issue_type rq) = 1"
    using False unique_flags_at_most_one [OF assms(4), of session_id issue_type]
    by (cases "flag_rows session_id issue_type rq") simp_all
  ultimately show ?thesis
    using first second by metis
qed

lemma demo_store_wellformed:
  "local_db demo_world = Some demo_db" "review_queue demo_db = Some demo_reviews"
  "review_queue_unique demo_db" "unique_flags demo_reviews"
  "\<not> list_ex (\<lambda>r. rq_id r = SText (''review_'' @ take 24 (uuid4_hex toy_env (draws demo_world))))
       demo_reviews"
  by code_simp+

text \<open>On the example store, session A has no \<open>missing_data\<close> entry before the two calls.\<close>

theorem flag_twice_one_row_witness:
  "local_db demo_world = Some demo_db \<and> review_queue demo_db = Some demo_reviews
   \<and> review_queue_unique demo_db \<and> unique_flags demo_reviews
   \<and> flag_rows ''A'' ''missing_data'' demo_reviews = []
   \<and> (\<exists>w1 w2.
       flag_session_for_review toy_env (PStr ''A'') ''missing_data'' ''first'' False False demo_world
         = (Inr True, w1)
     \<and> flag_session_for_review toy_env (PStr ''A'') ''missing_data'' ''second'' False False w1
         = (Inr True, w2)
     \<and> length (flag_rows ''A'' ''missing_data'' (persisted_reviews w2)) = 1)"
proof -
  have "flag_rows ''A'' ''missing_data'' demo_reviews = []"
    by code_simp
  then show ?thesis
    using demo_store_wellformed(1-4)
      flag_twice_one_row [OF demo_store_wellformed, of "''A''" "''missing_data''" "''first''" "''second''"]
    by blast
qed

subsection \<open>Standard error does not influence a run\<close>

text \<open>
  Every function only appends to standard error, so it commutes with putting lines in
  front of it.
\<close>

lemma with_err_fields [simp]:
  "local_db (with_err e w) = local_db w"
  "open_conns (with_err e w) = open_conns w"
  "temp_files (with_err e w) = temp_files w"
  "wrangler_log (with_err e w) = wrangler_log w"
  "draws (with_err e w) = draws w"
  "stdout (with_err e w) = stdout w"
  "stderr (with_err e w) = e @ stderr w"
  by (simp_all add: with_err_def)

lemma with_err_commute [simp]:
  "print_err l (with_err e w) = with_err e (print_err l w)"
  "print_out l (with_err e w) = with_err e (print_out l w)"
  "write_file f (with_err e w) = with_err e (write_file f w)"
  "remove_file f (with_err e w) = with_err e (remove_file f w)"
  "conn_close (with_err e w) = with_err e (conn_close w)"
  "(with_err e w)\<lparr>draws := n\<rparr> = with_err e (w\<lparr>draws := n\<rparr>)"
  "(with_err e w)\<lparr>open_conns := m\<rparr> = with_err e (w\<lparr>open_conns := m\<rparr>)"
  "(with_err e w)\<lparr>local_db := d\<rparr> = with_err e (w\<lparr>local_db := d\<rparr>)"
  "(with_err e w)\<lparr>wrangler_log := g\<rparr> = with_err e (w\<lparr>wrangler_log := g\<rparr>)"
  by (simp_all add: with_err_def print_err_def print_out_def write_file_def remove_file_def
      conn_close_def)

lemma lift_err_pair [simp]: "lift_err e (r, w) = (r, with_err e w)"
  by (simp add: lift_err_def)

lemma run_wrangler_command_err:
  "run_wrangler_command E c stmt (with_err e w) = lift_err e (run_wrangler_command E c stmt w)"
  by (simp add: run_wrangler_command_def Let_def split: wrangler_reply.splits)

lemma get_db_connection_err:
  "get_db_connection u (with_err e w) = lift_err e (get_db_connection u w)"
  by (simp add: get_db_connection_def split: option.splits)

lemma execute_query_err:
  "execute_query E q u (with_err e w) = lift_err e (execute_query E q u w)"
proof (cases u)
  case True
  obtain r w2 where run: "run_wrangler_command E
                [''d1'', ''execute'', REMOTE_DB_NAME, ''--remote'', ''--file=.temp_query.sql'']
                (SelectText q) (write_file ''.temp_query.sql'' w) = (r, w2)"
    by (cases "run_wrangler_command E
                [''d1'', ''execute'', REMOTE_DB_NAME, ''--remote'', ''--file=.temp_query.sql'']
                (SelectText q) (write_file ''.temp_query.sql'' w)") auto
  with True show ?thesis
    by (simp add: execute_query_def run_wrangler_command_err Let_def)
next
  case False
  then show ?thesis
    by (simp add: execute_query_def get_db_connection_def split: option.splits sum.splits)
qed

lemma check_err:
  assumes "check_functions c = Some check"
  shows "check E u (with_err e w) = lift_err e (check E u w)"
proof -
  have "check = detect_missing_data_sessions \<or> check = detect_duplicate_dates
        \<or> check = detect_incomplete_attendance \<or> check = detect_auto_imported_unreviewed"
    using assms by (auto simp: check_functions_def split: if_splits)
  moreover have "detect_incomplete_attendance E u (with_err e w)
                   = lift_err e (detect_incomplete_attendance E u w)"
    by (cases "execute_query E IncompleteAttendanceQuery u w")
       (simp add: detect_incomplete_attendance_def execute_query_err split: sum.splits)
  ultimately show ?thesis
    by (auto simp: detect_missing_data_sessions_def detect_duplicate_dates_def
        detect_auto_imported_unreviewed_def execute_query_err)
qed

lemma flag_session_for_review_err:
  "flag_session_for_review E sid k d dry u (with_err e w)
     = lift_err e (flag_session_for_review E sid k d dry u w)"
proof -
  consider (dry) "dry" | (remote) "\<not> dry" "u" | (local) "\<not> dry" "\<not> u"
    by blast
  then show ?thesis
  proof cases
    case dry
    then show ?thesis
      by (simp add: flag_session_for_review_def Let_def)
  next
    case remote
    then show ?thesis
      by (simp add: flag_session_for_review_def Let_def run_wrangler_command_err
          split: prod.splits)
  next
    case local
    then show ?thesis
      by (simp add: flag_session_for_review_def Let_def get_db_connection_def
          split: option.splits sum.splits error.splits)
  qed
qed

lemma flag_sessions_err:
  "flag_sessions E c dry u items n (with_err e w) = lift_err e (flag_sessions E c dry u items n w)"
proof (induction items arbitrary: n w)
  case Nil
  then show ?case by simp
next
  case (Cons candidate rest)
  show ?case
  proof (cases candidate)
    case (PDict session)
    show ?thesis
    proof (cases "truthy (dict_get session ''id'' PNone)")
      case True
      obtain r w1 where f: "flag_session_for_review E (dict_get session ''id'' PNone) c
              (description_for E c session) dry u w = (r, w1)"
        by (cases "flag_session_for_review E (dict_get session ''id'' PNone) c
              (description_for E c session) dry u w") auto
      with PDict True Cons.IH show ?thesis
        by (simp add: flag_session_for_review_err split: sum.splits)
    next
      case False
      with PDict Cons.IH show ?thesis by simp
    qed
  qed simp_all
qed

lemma run_checks_loop_err:
  "run_checks_loop E cs dry u res (with_err e w) = lift_err e (run_checks_loop E cs dry u res w)"
proof (induction cs arbitrary: res w)
  case Nil
  then show ?case by simp
next
  case (Cons c cs)
  show ?case
  proof (cases "check_functions c")
    case None
    with Cons.IH show ?thesis by simp
  next
    case (Some check)
    let ?w0 = "print_out (''Running check: '' @ c @ ''...'') (print_out [] w)"
    obtain r w1 where det: "check E u ?w0 = (r, w1)"
      by (cases "check E u ?w0") auto
    show ?thesis
    proof (cases r)
      case (Inl err)
      with Some det show ?thesis
        by (simp add: check_err [OF Some])
    next
      case (Inr candidates)
      show ?thesis
      proof (cases "py_iter candidates")
        case (Inl err)
        with Some det Inr show ?thesis
          by (simp add: check_err [OF Some])
      next
        case items: (Inr items)
        obtain r2 w2 where fl: "flag_sessions E c dry u items 0 w1 = (r2, w2)"
          by (cases "flag_sessions E c dry u items 0 w1") auto
        with Some det Inr items Cons.IH show ?thesis
          by (simp add: check_err [OF Some] flag_sessions_err split: sum.splits)
      qed
    qed
  qed
qed

subsection \<open>The orchestrator\<close>

lemma same_outcome_refl: "same_outcome p p"
  by (simp add: same_outcome_def)

lemma same_outcome_trans: "same_outcome p q \<Longrightarrow> same_outcome q r \<Longrightarrow> same_outcome p r"
  by (simp add: same_outcome_def)

lemma same_outcome_sym: "same_outcome p q \<Longrightarrow> same_outcome q p"
  by (simp add: same_outcome_def)

lemma same_outcome_lift_err: "same_outcome (lift_err e p) p"
  by (simp add: same_outcome_def lift_err_def with_err_def)

lemma with_err_stderr: "with_err (stderr w) (w\<lparr>stderr := []\<rparr>) = w"
  by (simp add: with_err_def)

lemma loop_ignores_stderr:
  "same_outcome (run_checks_loop E cs dry u res w)
                (run_checks_loop E cs dry u res (w\<lparr>stderr := []\<rparr>))"
  using run_checks_loop_err [of E cs dry u res "stderr w" "w\<lparr>stderr := []\<rparr>"]
  by (simp add: with_err_stderr same_outcome_lift_err)

lemma loop_stderr_prefix:
  "stderr (snd (run_checks_loop E cs dry u res w))
     = stderr w @ stderr (snd (run_checks_loop E cs dry u res (w\<lparr>stderr := []\<rparr>)))"
  using run_checks_loop_err [of E cs dry u res "stderr w" "w\<lparr>stderr := []\<rparr>"]
  by (simp add: with_err_stderr lift_err_def)

lemma loop_unknown:
  "check_functions c = None \<Longrightarrow>
   run_checks_loop E (c # cs) dry u res w
     = run_checks_loop E cs dry u res (print_err (unknown_criterion_warning c) w)"
  by simp

lemma loop_skips_unknown:
  "same_outcome (run_checks_loop E cs dry u res w)
                (run_checks_loop E (filter recognized cs) dry u res w)"
proof (induction cs arbitrary: res w)
  case Nil
  show ?case by (simp add: same_outcome_refl)
next
  case (Cons c cs)
  show ?case
  proof (cases "check_functions c")
    case None
    let ?w = "print_err (unknown_criterion_warning c) w"
    have erase: "?w\<lparr>stderr := []\<rparr> = w\<lparr>stderr := []\<rparr>"
      by (simp add: print_err_def)
    have a: "same_outcome (run_checks_loop E (c # cs) dry u res w)
            (run_checks_loop E (filter recognized cs) dry u res ?w)"
      using Cons.IH [of res ?w] None by simp
    have b: "same_outcome (run_checks_loop E (filter recognized cs) dry u res ?w)
            (run_checks_loop E (filter recognized cs) dry u res (w\<lparr>stderr := []\<rparr>))"
      using loop_ignores_stderr [of E "filter recognized cs" dry u res ?w] by (simp only: erase)
    have c: "same_outcome (run_checks_loop E (filter recognized cs) dry u res (w\<lparr>stderr := []\<rparr>))
            (run_checks_loop E (filter recognized cs) dry u res w)"
      by (rule same_outcome_sym) (rule loop_ignores_stderr)
    have "\<not> recognized c"
      using None by (simp add: recognized_def)
    then show ?thesis
      using same_outcome_trans [OF a same_outcome_trans [OF b c]] by simp
  next
    case (Some check)
    then have known: "recognized c"
      by (simp add: recognized_def)
    show ?thesis
      using Some known Cons.IH
      by (auto simp: same_outcome_refl split: prod.splits sum.splits)
  qed
qed

lemma loop_known:
  assumes "check_functions c = Some check"
    and "run_checks_loop E (c # cs) dry u res w = (Inr res', w')"
  obtains candidates items k w1 w2 where
    "check E u (print_out (''Running check: '' @ c @ ''...'') (print_out [] w))
       = (Inr candidates, w1)"
    and "py_iter candidates = Inr items"
    and "flag_sessions E c dry u items 0 w1 = (Inr k, w2)"
    and "run_checks_loop E cs dry u
           (res\<lparr>by_criteria :=
                  AList.update c \<lparr>found = py_len candidates, flagged = k\<rparr> (by_criteria res),
                total_flagged := total_flagged res + k\<rparr>)
           (print_out (''  Found '' @ str_nat (py_len candidates) @ '' sessions, flagged ''
                       @ str_nat k @ '' for review'') w2)
         = (Inr res', w')"
  using assms by (auto split: prod.splits sum.splits)

lemma py_len_iter: "py_iter candidates = Inr items \<Longrightarrow> py_len candidates = length items"
  by (auto simp: py_iter_def py_len_def split: pyval.splits)

lemma flag_sessions_bound:
  "flag_sessions E c dry u items n w = (Inr k, w') \<Longrightarrow> k \<le> n + length items"
proof (induction items arbitrary: n w)
  case Nil
  then show ?case by simp
next
  case (Cons candidate rest)
  then obtain session where dict: "candidate = PDict session"
    by (cases candidate) auto
  show ?case
  proof (cases "truthy (dict_get session ''id'' PNone)")
    case True
    with Cons.prems dict obtain ok w1 where
      "flag_sessions E c dry u rest (if ok then n + 1 else n) w1 = (Inr k, w')"
      by (auto split: prod.splits sum.splits)
    from Cons.IH [OF this] show ?thesis
      by (simp split: if_splits)
  next
    case False
    with Cons.prems dict have "flag_sessions E c dry u rest n w = (Inr k, w')"
      by simp
    from Cons.IH [OF this] show ?thesis by simp
  qed
qed

lemma first_occurrences_set: "set (first_occurrences xs) = set xs"
  by (induction xs) auto

lemma loop_keys:
  "run_checks_loop E cs dry u res w = (Inr res', w') \<Longrightarrow>
   map fst (by_criteria res')
     = map fst (by_criteria res)
       @ filter (\<lambda>c. c \<notin> fst ` set (by_criteria res)) (first_occurrences (filter recognized cs))"
proof (induction cs arbitrary: res w)
  case Nil
  then show ?case by simp
next
  case (Cons c cs)
  show ?case
  proof (cases "check_functions c")
    case None
    then have "\<not> recognized c" by (simp add: recognized_def)
    with Cons None show ?thesis by simp
  next
    case (Some check)
    then have known: "recognized c" by (simp add: recognized_def)
    from Some Cons.prems obtain candidates items k w1 w2 where
      rest: "run_checks_loop E cs dry u
           (res\<lparr>by_criteria :=
                  AList.update c \<lparr>found = py_len candidates, flagged = k\<rparr> (by_criteria res),
                total_flagged := total_flagged res + k\<rparr>)
           (print_out (''  Found '' @ str_nat (py_len candidates) @ '' sessions, flagged ''
                       @ str_nat k @ '' for review'') w2)
         = (Inr res', w')"
      by (rule loop_known)
    let ?keys = "fst ` set (by_criteria res)"
    let ?fo = "first_occurrences (filter recognized cs)"
    show ?thesis
    proof (cases "c \<in> ?keys")
      case True
      have "filter (\<lambda>x. x \<noteq> c \<and> x \<notin> ?keys) ?fo = filter (\<lambda>x. x \<notin> ?keys) ?fo"
        using True by (intro filter_cong refl) auto
      moreover have "insert c ?keys = ?keys"
        using True by auto
      ultimately show ?thesis
        using Cons.IH [OF rest] True known by (simp add: update_keys dom_update)
    next
      case False
      with Cons.IH [OF rest] known show ?thesis
        by (simp add: update_keys dom_update)
    qed
  qed
qed

lemma loop_warnings:
  "run_checks_loop E cs dry u res w = (Inr res', w') \<Longrightarrow>
   set (stderr w) \<subseteq> set (stderr w')
   \<and> (\<forall>c \<in> set cs. \<not> recognized c \<longrightarrow> unknown_criterion_warning c \<in> set (stderr w'))"
proof (induction cs arbitrary: res w)
  case Nil
  then show ?case by simp
next
  case (Cons c cs)
  have mono: "set (stderr w) \<subseteq> set (stderr w')"
    using loop_stderr_prefix [of E "c # cs" dry u res w] Cons.prems by simp
  show ?case
  proof (cases "check_functions c")
    case None
    with Cons.prems have "run_checks_loop E cs dry u res
                            (print_err (unknown_criterion_warning c) w) = (Inr res', w')"
      by simp
    from Cons.IH [OF this] mono show ?thesis
      by (auto simp: print_err_def)
  next
    case (Some check)
    then have known: "recognized c" by (simp add: recognized_def)
    from Some Cons.prems obtain candidates items k w1 w2 where
      "run_checks_loop E cs dry u
           (res\<lparr>by_criteria :=
                  AList.update c \<lparr>found = py_len candidates, flagged = k\<rparr> (by_criteria res),
                total_flagged := total_flagged res + k\<rparr>)
           (print_out (''  Found '' @ str_nat (py_len candidates) @ '' sessions, flagged ''
                       @ str_nat k @ '' for review'') w2)
         = (Inr res', w')"
      by (rule loop_known)
    from Cons.IH [OF this] mono known show ?thesis
      by auto
  qed
qed

lemma set_update_subset: "set (AList.update k v al) \<subseteq> insert (k, v) (set al)"
  by (induction al) auto

lemma loop_counts:
  "run_checks_loop E cs dry u res w = (Inr res', w') \<Longrightarrow>
   \<forall>st \<in> snd ` set (by_criteria res). flagged st \<le> found st \<Longrightarrow>
   \<forall>st \<in> snd ` set (by_criteria res'). flagged st \<le> found st"
proof (induction cs arbitrary: res w)
  case Nil
  then show ?case by simp
next
  case (Cons c cs)
  show ?case
  proof (cases "check_functions c")
    case None
    with Cons show ?thesis by simp
  next
    case (Some check)
    from Some Cons.prems(1) obtain candidates items k w1 w2 where
      iter: "py_iter candidates = Inr items"
      and fl: "flag_sessions E c dry u items 0 w1 = (Inr k, w2)"
      and rest: "run_checks_loop E cs dry u
           (res\<lparr>by_criteria :=
                  AList.update c \<lparr>found = py_len candidates, flagged = k\<rparr> (by_criteria res),
                total_flagged := total_flagged res + k\<rparr>)
           (print_out (''  Found '' @ str_nat (py_len candidates) @ '' sessions, flagged ''
                       @ str_nat k @ '' for review'') w2)
         = (Inr res', w')"
      by (rule loop_known)
    have "k \<le> py_len candidates"
      using flag_sessions_bound [OF fl] py_len_iter [OF iter] by simp
    then have "\<forall>st \<in> snd ` set (AList.update c \<lparr>found = py_len candidates, flagged = k\<rparr>
                                      (by_criteria res)). flagged st \<le> found st"
      using Cons.prems(2) set_update_subset [of c "\<lparr>found = py_len candidates, flagged = k\<rparr>"
          "by_criteria res"]
      by auto
    with Cons.IH [OF rest] show ?thesis by simp
  qed
qed

lemma update_fresh: "k \<notin> fst ` set al \<Longrightarrow> AList.update k v al = al @ [(k, v)]"
  by (induction al) auto

lemma loop_total:
  "run_checks_loop E cs dry u res w = (Inr res', w') \<Longrightarrow>
   distinct (filter recognized cs) \<Longrightarrow>
   set (filter recognized cs) \<inter> fst ` set (by_criteria res) = {} \<Longrightarrow>
   total_flagged res' + flagged_sum (by_criteria res)
     = total_flagged res + flagged_sum (by_criteria res')"
proof (induction cs arbitrary: res w)
  case Nil
  then show ?case by simp
next
  case (Cons c cs)
  show ?case
  proof (cases "check_functions c")
    case None
    then have "\<not> recognized c" by (simp add: recognized_def)
    with Cons None show ?thesis by simp
  next
    case (Some check)
    then have known: "recognized c" by (simp add: recognized_def)
    from Some Cons.prems(1) obtain candidates items k w1 w2 where
      rest: "run_checks_loop E cs dry u
           (res\<lparr>by_criteria :=
                  AList.update c \<lparr>found = py_len candidates, flagged = k\<rparr> (by_criteria res),
                total_flagged := total_flagged res + k\<rparr>)
           (print_out (''  Found '' @ str_nat (py_len candidates) @ '' sessions, flagged ''
                       @ str_nat k @ '' for review'') w2)
         = (Inr res', w')"
      by (rule loop_known)
    have fresh: "c \<notin> fst ` set (by_criteria res)"
      using Cons.prems(3) known by auto
    have upd: "AList.update c \<lparr>found = py_len candidates, flagged = k\<rparr> (by_criteria res)
                 = by_criteria res @ [(c, \<lparr>found = py_len candidates, flagged = k\<rparr>)]"
      using fresh by (rule update_fresh)
    have d: "distinct (filter recognized cs)" and notin: "c \<notin> set (filter recognized cs)"
      using Cons.prems(2) known by simp_all
    have disj: "set (filter recognized cs) \<inter>
                  fst ` set (by_criteria res @ [(c, \<lparr>found = py_len candidates, flagged = k\<rparr>)]) = {}"
      using Cons.prems(3) notin known by auto
    from Cons.IH [OF rest d] disj show ?thesis
      by (simp add: upd flagged_sum_def)
  qed
qed

subsection \<open>Preview mode\<close>

lemma has_truthy_id_dict [simp]:
  "has_truthy_id (PDict session) = truthy (dict_get session ''id'' PNone)"
  by (simp add: has_truthy_id_def)

lemma only_queried_refl: "only_queried w w"
  by (simp add: only_queried_def)

lemma only_queried_trans: "only_queried w w1 \<Longrightarrow> only_queried w1 w2 \<Longrightarrow> only_queried w w2"
  by (auto simp: only_queried_def)

lemma only_queried_print [simp]:
  "only_queried w (print_out l w1) = only_queried w w1"
  "only_queried w (print_err l w1) = only_queried w w1"
  "only_queried (print_out l w) w1 = only_queried w w1"
  "only_queried (print_err l w) w1 = only_queried w w1"
  by (simp_all add: only_queried_def print_out_def print_err_def)

lemma execute_query_only_queried:
  "only_queried w (snd (execute_query E q u w))"
proof (cases u)
  case True
  then show ?thesis
    by (simp add: execute_query_def run_wrangler_command_def Let_def only_queried_def
        write_file_def remove_file_def print_err_def is_select_def
        split: wrangler_reply.splits)
next
  case False
  then show ?thesis
    by (simp add: execute_query_def get_db_connection_def only_queried_def conn_close_def
        split: option.splits sum.splits)
qed

lemma check_only_queried:
  assumes "check_functions c = Some check"
  shows "only_queried w (snd (check E u w))"
proof -
  have "check = detect_missing_data_sessions \<or> check = detect_duplicate_dates
        \<or> check = detect_incomplete_attendance \<or> check = detect_auto_imported_unreviewed"
    using assms by (auto simp: check_functions_def split: if_splits)
  moreover have "only_queried w (snd (detect_incomplete_attendance E u w))"
    using execute_query_only_queried [of w E IncompleteAttendanceQuery u]
    by (cases "execute_query E IncompleteAttendanceQuery u w")
       (simp add: detect_incomplete_attendance_def split: sum.splits)
  ultimately show ?thesis
    using execute_query_only_queried [of w E _ u]
    by (auto simp: detect_missing_data_sessions_def detect_duplicate_dates_def
        detect_auto_imported_unreviewed_def)
qed

lemma flag_preview:
  "flag_session_for_review E session_id issue_type description True use_remote w =
     (Inr True,
      w\<lparr>draws := draws w + 1,
        stdout := stdout w @ [''  [DRY RUN] Would flag session '' @ py_str E session_id
                              @ '' for review: '' @ description]\<rparr>)"
  by (simp add: flag_session_for_review_def Let_def print_out_def)

lemma flag_sessions_preview:
  "flag_sessions E c True u items n w = (r, w') \<Longrightarrow>
   only_queried w w' \<and> wrangler_log w' = wrangler_log w
   \<and> (\<forall>k. r = Inr k \<longrightarrow> k = n + length (filter has_truthy_id items))"
proof (induction items arbitrary: n w)
  case Nil
  then show ?case by (auto simp: only_queried_def)
next
  case (Cons candidate rest)
  show ?case
  proof (cases candidate)
    case (PDict session)
    show ?thesis
    proof (cases "truthy (dict_get session ''id'' PNone)")
      case True
      let ?w1 = "w\<lparr>draws := draws w + 1,
        stdout := stdout w @ [''  [DRY RUN] Would flag session ''
                              @ py_str E (dict_get session ''id'' PNone)
                              @ '' for review: '' @ description_for E c session]\<rparr>"
      have "flag_sessions E c True u rest (n + 1) ?w1 = (r, w')"
        using Cons.prems PDict True by (simp add: flag_preview)
      from Cons.IH [OF this] PDict True show ?thesis
        by (simp add: only_queried_def)
    next
      case False
      with Cons.prems PDict have "flag_sessions E c True u rest n w = (r, w')"
        by simp
      from Cons.IH [OF this] PDict False show ?thesis
        by simp
    qed
  qed (use Cons.prems in \<open>auto simp: only_queried_def\<close>)
qed

lemma run_checks_loop_preview:
  "run_checks_loop E cs True u res w = (r, w') \<Longrightarrow> only_queried w w'"
proof (induction cs arbitrary: res w)
  case Nil
  then show ?case by (auto simp: only_queried_def)
next
  case (Cons c cs)
  show ?case
  proof (cases "check_functions c")
    case None
    with Cons.prems have "run_checks_loop E cs True u res
                            (print_err (unknown_criterion_warning c) w) = (r, w')"
      by simp
    from Cons.IH [OF this] show ?thesis by simp
  next
    case (Some check)
    let ?w0 = "print_out (''Running check: '' @ c @ ''...'') (print_out [] w)"
    obtain r1 w1 where det: "check E u ?w0 = (r1, w1)"
      by (cases "check E u ?w0") auto
    have q1: "only_queried w w1"
      using check_only_queried [OF Some, of ?w0 E u] det by simp
    show ?thesis
    proof (cases r1)
      case (Inl err)
      with Some det Cons.prems q1 show ?thesis by auto
    next
      case (Inr candidates)
      show ?thesis
      proof (cases "py_iter candidates")
        case (Inl err)
        with Some det Inr Cons.prems q1 show ?thesis by auto
      next
        case items: (Inr items)
        obtain r2 w2 where fl: "flag_sessions E c True u items 0 w1 = (r2, w2)"
          by (cases "flag_sessions E c True u items 0 w1") auto
        have q2: "only_queried w w2"
          using flag_sessions_preview [OF fl] q1 by (blast intro: only_queried_trans)
        show ?thesis
        proof (cases r2)
          case (Inl err)
          with Some det Inr items fl Cons.prems q2 show ?thesis by auto
        next
          case k: (Inr k)
          with Some det Inr items fl Cons.prems have
            "run_checks_loop E cs True u
               (res\<lparr>by_criteria :=
                  AList.update c \<lparr>found = py_len candidates, flagged = k\<rparr> (by_criteria res),
                total_flagged := total_flagged res + k\<rparr>)
               (print_out (''  Found '' @ str_nat (py_len candidates) @ '' sessions, flagged ''
                       @ str_nat k @ '' for review'') w2) = (r, w')"
            by simp
          from Cons.IH [OF this] q2 show ?thesis
            by (auto intro: only_queried_trans)
        qed
      qed
    qed
  qed
qed

lemma execute_query_local_fst:
  "fst (execute_query E q False w) =
     (case local_db w of
        None \<Rightarrow> Inl FileNotFoundError
      | Some db \<Rightarrow>
          (case run_query q db of
             Inl e \<Rightarrow> Inl e
           | Inr rows \<Rightarrow> Inr (PList (map dict_of_row rows))))"
  by (simp add: execute_query_def get_db_connection_def split: option.splits sum.splits)

lemma execute_query_same_db:
  "local_db w1 = local_db w2 \<Longrightarrow>
   fst (execute_query E q False w1) = fst (execute_query E q False w2)"
  by (simp add: execute_query_local_fst)

lemma detect_incomplete_fst:
  "fst (detect_incomplete_attendance E u w) =
     (case fst (execute_query E IncompleteAttendanceQuery u w) of
        Inl e \<Rightarrow> Inl e
      | Inr fetched \<Rightarrow>
          (case py_iter fetched of
             Inl e \<Rightarrow> Inl e
           | Inr items \<Rightarrow>
               (case skip_memberless items of
                  Inl e \<Rightarrow> Inl e
                | Inr incomplete \<Rightarrow> Inr (PList incomplete))))"
  by (cases "execute_query E IncompleteAttendanceQuery u w")
     (simp add: detect_incomplete_attendance_def split: sum.splits)

lemma check_same_db:
  assumes "check_functions c = Some check" and "local_db w1 = local_db w2"
  shows "fst (check E False w1) = fst (check E False w2)"
proof -
  have "check = detect_missing_data_sessions \<or> check = detect_duplicate_dates
        \<or> check = detect_incomplete_attendance \<or> check = detect_auto_imported_unreviewed"
    using assms(1) by (auto simp: check_functions_def split: if_splits)
  then show ?thesis
    using execute_query_same_db [OF assms(2), of E]
    by (auto simp: detect_missing_data_sessions_def detect_duplicate_dates_def
        detect_auto_imported_unreviewed_def detect_incomplete_fst)
qed

lemma check_local_list:
  assumes "check_functions c = Some check" and "fst (check E False w) = Inr candidates"
  shows "\<exists>items. candidates = PList items"
proof -
  have "check = detect_missing_data_sessions \<or> check = detect_duplicate_dates
        \<or> check = detect_incomplete_attendance \<or> check = detect_auto_imported_unreviewed"
    using assms(1) by (auto simp: check_functions_def split: if_splits)
  then show ?thesis
    using assms(2)
    by (auto simp: detect_missing_data_sessions_def detect_duplicate_dates_def
        detect_auto_imported_unreviewed_def detect_incomplete_fst execute_query_local_fst
        split: option.splits sum.splits)
qed

lemma loop_preview_counts:
  "run_checks_loop E cs True False res w = (Inr res', w') \<Longrightarrow>
   local_db w = local_db w0 \<Longrightarrow>
   \<forall>p \<in> set (by_criteria res). accurate_preview E w0 (fst p) (snd p) \<Longrightarrow>
   \<forall>p \<in> set (by_criteria res'). accurate_preview E w0 (fst p) (snd p)"
proof (induction cs arbitrary: res w)
  case Nil
  then show ?case by simp
next
  case (Cons c cs)
  show ?case
  proof (cases "check_functions c")
    case None
    with Cons.prems(1) have "run_checks_loop E cs True False res
                            (print_err (unknown_criterion_warning c) w) = (Inr res', w')"
      by simp
    moreover have "local_db (print_err (unknown_criterion_warning c) w) = local_db w0"
      using Cons.prems(2) by (simp add: print_err_def)
    ultimately show ?thesis
      using Cons.IH Cons.prems(3) by blast
  next
    case (Some check)
    let ?wp = "print_out (''Running check: '' @ c @ ''...'') (print_out [] w)"
    from Some Cons.prems(1) obtain candidates items k w1 w2 where
      det: "check E False ?wp = (Inr candidates, w1)"
      and iter: "py_iter candidates = Inr items"
      and fl: "flag_sessions E c True False items 0 w1 = (Inr k, w2)"
      and rest: "run_checks_loop E cs True False
           (res\<lparr>by_criteria :=
                  AList.update c \<lparr>found = py_len candidates, flagged = k\<rparr> (by_criteria res),
                total_flagged := total_flagged res + k\<rparr>)
           (print_out (''  Found '' @ str_nat (py_len candidates) @ '' sessions, flagged ''
                       @ str_nat k @ '' for review'') w2)
         = (Inr res', w')"
      by (rule loop_known)
    have dbp: "local_db ?wp = local_db w0"
      using Cons.prems(2) by (simp add: print_out_def)
    have same: "fst (check E False w0) = Inr candidates"
      using check_same_db [OF Some dbp, of E] det by simp
    then obtain xs where list: "candidates = PList xs"
      using check_local_list [OF Some] by blast
    with iter have xs: "xs = items"
      by (simp add: py_iter_def)
    have db1: "local_db w1 = local_db w0"
      using check_only_queried [OF Some, of ?wp E False] det dbp by (simp add: only_queried_def)
    have k: "k = length (filter has_truthy_id items)" and db2: "local_db w2 = local_db w0"
      using flag_sessions_preview [OF fl] db1 by (simp_all add: only_queried_def)
    have new: "accurate_preview E w0 c \<lparr>found = py_len candidates, flagged = k\<rparr>"
      using Some same list xs k by (auto simp: accurate_preview_def py_len_def)
    have inv: "\<forall>p \<in> set (AList.update c \<lparr>found = py_len candidates, flagged = k\<rparr>
                              (by_criteria res)). accurate_preview E w0 (fst p) (snd p)"
      using new Cons.prems(3)
        set_update_subset [of c "\<lparr>found = py_len candidates, flagged = k\<rparr>" "by_criteria res"]
      by auto
    have dbr: "local_db (print_out (''  Found '' @ str_nat (py_len candidates)
                 @ '' sessions, flagged '' @ str_nat k @ '' for review'') w2) = local_db w0"
      using db2 by (simp add: print_out_def)
    from Cons.IH [OF rest dbr] inv show ?thesis
      by simp
  qed
qed

subsection \<open>Candidates without an identifier\<close>

lemma run_wrangler_command_draws:
  "draws (snd (run_wrangler_command E c stmt w)) = draws w"
  by (simp add: run_wrangler_command_def Let_def print_err_def split: wrangler_reply.splits)

lemma flag_draws:
  "draws (snd (flag_session_for_review E sid k d dry u w)) = draws w + 1"
proof -
  consider (dry) "dry" | (remote) "\<not> dry" "u" | (local) "\<not> dry" "\<not> u"
    by blast
  then show ?thesis
  proof cases
    case dry
    then show ?thesis by (simp add: flag_preview)
  next
    case remote
    let ?rid = "''review_'' @ take 24 (uuid4_hex E (draws w))"
    let ?f = "''.temp_insert_'' @ ?rid @ ''.sql''"
    let ?run = "run_wrangler_command E
                [''d1'', ''execute'', REMOTE_DB_NAME, ''--remote'', ''--file='' @ ?f]
                (InsertText (insert_statement E ?rid sid k d (utcnow_isoformat E (draws w))))
                (write_file ?f (w\<lparr>draws := draws w + 1\<rparr>))"
    have "draws (snd ?run) = draws w + 1"
      by (simp add: run_wrangler_command_draws write_file_def)
    with remote show ?thesis
      by (cases ?run) (simp add: flag_session_for_review_def Let_def remove_file_def)
  next
    case local
    then show ?thesis
      by (simp add: flag_session_for_review_def Let_def get_db_connection_def conn_close_def
          print_err_def split: option.splits sum.splits error.splits)
  qed
qed

lemma flag_sessions_writes:
  "flag_sessions E c dry u items n w = (Inr k, w') \<Longrightarrow>
   k \<le> n + length (filter has_truthy_id items)
   \<and> draws w' = draws w + length (filter has_truthy_id items)"
proof (induction items arbitrary: n w)
  case Nil
  then show ?case by simp
next
  case (Cons candidate rest)
  then obtain session where dict: "candidate = PDict session"
    by (cases candidate) auto
  show ?case
  proof (cases "truthy (dict_get session ''id'' PNone)")
    case True
    let ?call = "flag_session_for_review E (dict_get session ''id'' PNone) c
                   (description_for E c session) dry u w"
    from Cons.prems dict True obtain ok w1 where
      call: "?call = (Inr ok, w1)"
      and rest: "flag_sessions E c dry u rest (if ok then n + 1 else n) w1 = (Inr k, w')"
      by (auto split: prod.splits sum.splits)
    have "draws w1 = draws w + 1"
      using flag_draws [of E "dict_get session ''id'' PNone" c "description_for E c session" dry u w]
        call by simp
    with Cons.IH [OF rest] dict True show ?thesis
      by (simp split: if_splits)
  next
    case False
    with Cons.prems dict have "flag_sessions E c dry u rest n w = (Inr k, w')"
      by simp
    from Cons.IH [OF this] dict False show ?thesis by simp
  qed
qed

lemma flag_sessions_skip:
  "\<not> truthy (dict_get session ''id'' PNone) \<Longrightarrow>
   flag_sessions E c dry u (xs @ PDict session # ys) n w = flag_sessions E c dry u (xs @ ys) n w"
proof (induction xs arbitrary: n w)
  case Nil
  then show ?case by simp
next
  case (Cons x xs)
  then show ?case
    by (cases x) (simp_all add: Let_def split: prod.splits sum.splits)
qed

text \<open>
  Claim C10. A candidate whose \<open>id\<close> is absent, \<open>None\<close> or otherwise not
  truthy is passed over: the loop over the candidates behaves exactly as if the record
  were not in the list, so the writer is not called for it. When \<open>run_checks\<close>
  completes for a recognized criterion, \<open>found\<close> is the number of all candidates
  that its rule returned, the writer was called once for each candidate with a truthy
  \<open>id\<close> (each call generates one identifier) and \<open>flagged\<close> is at most the
  number of those candidates: every candidate without a truthy \<open>id\<close> is counted in
  \<open>found\<close> and not in \<open>flagged\<close>.
\<close>

theorem falsy_id_found_not_flagged:
  "(\<not> truthy (dict_get session ''id'' PNone) \<longrightarrow>
      flag_sessions E c dry_run use_remote (xs @ PDict session # ys) n w
        = flag_sessions E c dry_run use_remote (xs @ ys) n w)
   \<and> (\<forall>check summary w'.
        check_functions c = Some check
          \<and> run_checks E [c] dry_run use_remote w = (Inr summary, w') \<longrightarrow>
        (\<exists>candidates items w1.
            check E use_remote (print_out (''Running check: '' @ c @ ''...'') (print_out [] w))
              = (Inr candidates, w1)
          \<and> py_iter candidates = Inr items
          \<and> by_criteria summary
              = [(c, \<lparr>found = length items, flagged = total_flagged summary\<rparr>)]
          \<and> total_flagged summary \<le> length (filter has_truthy_id items)
          \<and> draws w' = draws w1 + length (filter has_truthy_id items)))"
proof (intro conjI allI impI)
  assume "\<not> truthy (dict_get session ''id'' PNone)"
  then show "flag_sessions E c dry_run use_remote (xs @ PDict session # ys) n w
        = flag_sessions E c dry_run use_remote (xs @ ys) n w"
    by (rule flag_sessions_skip)
next
  fix check summary w'
  assume a: "check_functions c = Some check
          \<and> run_checks E [c] dry_run use_remote w = (Inr summary, w')"
  then have known: "check_functions c = Some check"
    and run: "run_checks_loop E [c] dry_run use_remote \<lparr>total_flagged = 0, by_criteria = []\<rparr> w
                = (Inr summary, w')"
    unfolding run_checks_def by blast+
  from known run obtain candidates items k w1 w2 where
    det: "check E use_remote (print_out (''Running check: '' @ c @ ''...'') (print_out [] w))
       = (Inr candidates, w1)"
    and iter: "py_iter candidates = Inr items"
    and fl: "flag_sessions E c dry_run use_remote items 0 w1 = (Inr k, w2)"
    and rest: "run_checks_loop E [] dry_run use_remote
           (\<lparr>total_flagged = 0, by_criteria = []\<rparr>\<lparr>by_criteria :=
                  AList.update c \<lparr>found = py_len candidates, flagged = k\<rparr>
                    (by_criteria \<lparr>total_flagged = 0, by_criteria = []\<rparr>),
                total_flagged := total_flagged \<lparr>total_flagged = 0, by_criteria = []\<rparr> + k\<rparr>)
           (print_out (''  Found '' @ str_nat (py_len candidates) @ '' sessions, flagged ''
                       @ str_nat k @ '' for review'') w2)
         = (Inr summary, w')"
    by (rule loop_known)
  from rest have summary: "summary = \<lparr>total_flagged = k,
          by_criteria = [(c, \<lparr>found = py_len candidates, flagged = k\<rparr>)]\<rparr>"
    and w': "w' = print_out (''  Found '' @ str_nat (py_len candidates) @ '' sessions, flagged ''
                       @ str_nat k @ '' for review'') w2"
    by auto
  have "k \<le> length (filter has_truthy_id items)"
    and "draws w2 = draws w1 + length (filter has_truthy_id items)"
    using flag_sessions_writes [OF fl] by simp_all
  then show "\<exists>candidates items w1.
            check E use_remote (print_out (''Running check: '' @ c @ ''...'') (print_out [] w))
              = (Inr candidates, w1)
          \<and> py_iter candidates = Inr items
          \<and> by_criteria summary
              = [(c, \<lparr>found = length items, flagged = total_flagged summary\<rparr>)]
          \<and> total_flagged summary \<le> length (filter has_truthy_id items)
          \<and> draws w' = draws w1 + length (filter has_truthy_id items)"
    using det iter summary w' py_len_iter [OF iter]
    by (auto simp: print_out_def)
qed

text \<open>
  On a store with sessions C and F, both without a date, F with an empty identifier: two
  candidates are found, the writer is called once, and its one write succeeds.
\<close>

theorem falsy_id_found_not_flagged_witness:
  "fst (run_checks toy_env [''missing_data''] False False (world_of (Some empty_id_db)))
     = Inr \<lparr> total_flagged = 1,
             by_criteria = [(''missing_data'', \<lparr>found = 2, flagged = 1\<rparr>)] \<rparr>
   \<and> map rq_item_id (persisted_reviews
          (snd (run_checks toy_env [''missing_data''] False False (world_of (Some empty_id_db)))))
       = [SText ''C'']
   \<and> \<not> truthy (dict_get (row_dict (session_columns session_F)) ''id'' PNone)
   \<and> flag_sessions toy_env ''missing_data'' False False
        [session_dict session_C, session_dict session_F] 0 (world_of (Some empty_id_db))
       = flag_sessions toy_env ''missing_data'' False False
        [session_dict session_C] 0 (world_of (Some empty_id_db))
   \<and> (\<exists>candidates items w1.
          detect_missing_data_sessions toy_env False
            (print_out (''Running check: '' @ ''missing_data'' @ ''...'')
               (print_out [] (world_of (Some empty_id_db))))
            = (Inr candidates, w1)
        \<and> py_iter candidates = Inr items
        \<and> length items = 2
        \<and> length (filter has_truthy_id items) = 1)"
proof -
  define w where "w = world_of (Some empty_id_db)"
  define run where "run = run_checks toy_env [''missing_data''] False False w"
  define S where "S = \<lparr> total_flagged = 1,
             by_criteria = [(''missing_data'', \<lparr>found = 2, flagged = 1\<rparr>)] \<rparr>"
  note inst = falsy_id_found_not_flagged [where E = toy_env and c = "''missing_data''"
      and dry_run = False and use_remote = False and w = w
      and session = "row_dict (session_columns session_F)"
      and xs = "[session_dict session_C]" and ys = "[]" and n = 0]
  have run: "fst run = Inr S"
    unfolding run_def S_def w_def by code_simp
  have pair: "run_checks toy_env [''missing_data''] False False w = (Inr S, snd run)"
    using run unfolding run_def by (simp add: prod_eq_iff)
  have rows: "map rq_item_id (persisted_reviews (snd run)) = [SText ''C'']"
    unfolding run_def w_def by code_simp
  have falsy: "\<not> truthy (dict_get (row_dict (session_columns session_F)) ''id'' PNone)"
    by code_simp
  have F: "session_dict session_F = PDict (row_dict (session_columns session_F))"
    by (simp add: session_dict_def dict_of_row_def)
  have skip: "flag_sessions toy_env ''missing_data'' False False
        [session_dict session_C, session_dict session_F] 0 w
       = flag_sessions toy_env ''missing_data'' False False [session_dict session_C] 0 w"
    using inst [THEN conjunct1, rule_format, OF falsy] by (simp only: F append.simps)
  have known: "check_functions ''missing_data'' = Some detect_missing_data_sessions"
    by (simp add: check_functions_def)
  from inst [THEN conjunct2, rule_format, OF conjI, OF known pair]
  obtain candidates items w1 where
    det: "detect_missing_data_sessions toy_env False
            (print_out (''Running check: '' @ ''missing_data'' @ ''...'') (print_out [] w))
            = (Inr candidates, w1)"
    and iter: "py_iter candidates = Inr items"
    and entry: "by_criteria S = [(''missing_data'', \<lparr>found = length items, flagged = total_flagged S\<rparr>)]"
    and le: "total_flagged S \<le> length (filter has_truthy_id items)"
    and dr: "draws (snd run) = draws w1 + length (filter has_truthy_id items)"
    by (elim exE conjE)
  have len: "length items = 2"
    using entry by (simp add: S_def)
  have "draws (snd run) = 1"
    unfolding run_def w_def by code_simp
  with dr le have "length (filter has_truthy_id items) = 1"
    by (simp add: S_def)
  with det iter len have "\<exists>candidates items w1.
          detect_missing_data_sessions toy_env False
            (print_out (''Running check: '' @ ''missing_data'' @ ''...'') (print_out [] w))
            = (Inr candidates, w1)
        \<and> py_iter candidates = Inr items
        \<and> length items = 2
        \<and> length (filter has_truthy_id items) = 1"
    by (intro exI conjI)
  with run rows falsy skip show ?thesis
    unfolding run_def S_def w_def by (intro conjI)
qed

lemma preview_single:
  assumes "check_functions c = Some check"
    and "run_checks E [c] True u w = (Inr summary, w')"
  shows "\<exists>candidates items w1.
             check E u (print_out (''Running check: '' @ c @ ''...'') (print_out [] w))
               = (Inr candidates, w1)
           \<and> py_iter candidates = Inr items
           \<and> by_criteria summary
               = [(c, \<lparr>found = length items, flagged = length (filter has_truthy_id items)\<rparr>)]"
proof -
  have run: "run_checks_loop E [c] True u \<lparr>total_flagged = 0, by_criteria = []\<rparr> w
               = (Inr summary, w')"
    using assms(2) by (simp only: run_checks_def)
  from assms(1) run obtain candidates items k w1 w2 where
    det: "check E u (print_out (''Running check: '' @ c @ ''...'') (print_out [] w))
       = (Inr candidates, w1)"
    and iter: "py_iter candidates = Inr items"
    and fl: "flag_sessions E c True u items 0 w1 = (Inr k, w2)"
    and rest: "run_checks_loop E [] True u
           (\<lparr>total_flagged = 0, by_criteria = []\<rparr>\<lparr>by_criteria :=
                  AList.update c \<lparr>found = py_len candidates, flagged = k\<rparr>
                    (by_criteria \<lparr>total_flagged = 0, by_criteria = []\<rparr>),
                total_flagged := total_flagged \<lparr>total_flagged = 0, by_criteria = []\<rparr> + k\<rparr>)
           (print_out (''  Found '' @ str_nat (py_len candidates) @ '' sessions, flagged ''
                       @ str_nat k @ '' for review'') w2)
         = (Inr summary, w')"
    by (rule loop_known)
  have k: "k = length (filter has_truthy_id items)"
    using flag_sessions_preview [OF fl] by simp
  have "by_criteria summary = [(c, \<lparr>found = py_len candidates, flagged = k\<rparr>)]"
    using rest by auto
  then have "by_criteria summary
               = [(c, \<lparr>found = length items, flagged = length (filter has_truthy_id items)\<rparr>)]"
    using k py_len_iter [OF iter] by simp
  with det iter show ?thesis
    by blast
qed

text \<open>
  Claim C2. In preview mode \<open>flag_session_for_review\<close> returns \<open>True\<close> for
  every session, issue kind and description, in both modes, and changes nothing but the
  count of generated identifiers and standard output, where it prints the notice. A run
  of \<open>run_checks\<close> in preview mode, however it ends, leaves the local store as it was
  and hands only detection queries to the external command. When a local preview run
  completes, the statistics of every criterion are accurate: \<open>found\<close> is the number
  of candidates that the rule returns on the store. In both modes, when a preview run for
  one recognized criterion completes, \<open>found\<close> is the number of candidates that
  the rule returned, whatever they are, and \<open>flagged\<close> the number of those with a
  truthy \<open>id\<close>.
\<close>

theorem preview_never_mutates:
  "flag_session_for_review E session_id issue_type description True use_remote w
     = (Inr True,
        w\<lparr>draws := draws w + 1,
          stdout := stdout w @ [''  [DRY RUN] Would flag session '' @ py_str E session_id
                                @ '' for review: '' @ description]\<rparr>)
   \<and> (\<forall>r w'. run_checks E criteria True use_remote w = (r, w') \<longrightarrow> only_queried w w')
   \<and> (\<forall>summary w'. run_checks E criteria True False w = (Inr summary, w') \<longrightarrow>
         (\<forall>p \<in> set (by_criteria summary). accurate_preview E w (fst p) (snd p)))
   \<and> (\<forall>c check summary w'.
         check_functions c = Some check
           \<and> run_checks E [c] True use_remote w = (Inr summary, w') \<longrightarrow>
         (\<exists>candidates items w1.
             check E use_remote (print_out (''Running check: '' @ c @ ''...'') (print_out [] w))
               = (Inr candidates, w1)
           \<and> py_iter candidates = Inr items
           \<and> by_criteria summary
               = [(c, \<lparr>found = length items, flagged = length (filter has_truthy_id items)\<rparr>)]))"
proof (intro conjI allI impI)
  show "flag_session_for_review E session_id issue_type description True use_remote w
     = (Inr True,
        w\<lparr>draws := draws w + 1,
          stdout := stdout w @ [''  [DRY RUN] Would flag session '' @ py_str E session_id
                                @ '' for review: '' @ description]\<rparr>)"
    by (rule flag_preview)
next
  fix r w'
  assume "run_checks E criteria True use_remote w = (r, w')"
  then show "only_queried w w'"
    unfolding run_checks_def by (rule run_checks_loop_preview)
next
  fix summary w'
  assume "run_checks E criteria True False w = (Inr summary, w')"
  then have "run_checks_loop E criteria True False \<lparr>total_flagged = 0, by_criteria = []\<rparr> w
               = (Inr summary, w')"
    by (simp only: run_checks_def)
  from loop_preview_counts [OF this, of w]
  show "\<forall>p \<in> set (by_criteria summary). accurate_preview E w (fst p) (snd p)"
    by simp
next
  fix c check summary w'
  assume "check_functions c = Some check
           \<and> run_checks E [c] True use_remote w = (Inr summary, w')"
  then show "\<exists>candidates items w1.
             check E use_remote (print_out (''Running check: '' @ c @ ''...'') (print_out [] w))
               = (Inr candidates, w1)
           \<and> py_iter candidates = Inr items
           \<and> by_criteria summary
               = [(c, \<lparr>found = length items, flagged = length (filter has_truthy_id items)\<rparr>)]"
    using preview_single by blast
qed

text \<open>
  A local preview of all four criteria on the example store: nine candidates are found
  and the two rows of \<open>review_queue\<close> stay as they were. A remote preview of
  \<open>duplicate_dates\<close> without a local store: the external command is given the
  query and nothing else, two candidates are found and one has an identifier.
\<close>

theorem preview_never_mutates_witness:
  "fst (run_checks toy_env all_criteria True False demo_world)
     = Inr \<lparr> total_flagged = 9,
             by_criteria = [(''missing_data'', \<lparr>found = 1, flagged = 1\<rparr>),
                            (''duplicate_dates'', \<lparr>found = 2, flagged = 2\<rparr>),
                            (''incomplete_attendance'', \<lparr>found = 3, flagged = 3\<rparr>),
                            (''auto_imported'', \<lparr>found = 3, flagged = 3\<rparr>)] \<rparr>
   \<and> only_queried demo_world (snd (run_checks toy_env all_criteria True False demo_world))
   \<and> persisted_reviews (snd (run_checks toy_env all_criteria True False demo_world))
       = demo_reviews
   \<and> accurate_preview toy_env demo_world ''missing_data'' \<lparr>found = 1, flagged = 1\<rparr>
   \<and> fst (flag_session_for_review toy_env (PStr ''A'') ''missing_data'' ''Missing required fields: date''
            True False demo_world) = Inr True
   \<and> fst (run_checks remote_env [''duplicate_dates''] True True (world_of None))
       = Inr \<lparr> total_flagged = 1,
               by_criteria = [(''duplicate_dates'', \<lparr>found = 2, flagged = 1\<rparr>)] \<rparr>
   \<and> map snd (wrangler_log (snd (run_checks remote_env [''duplicate_dates''] True True
                                    (world_of None))))
       = [SelectText DuplicateDatesQuery]
   \<and> (\<exists>candidates items w1.
          detect_duplicate_dates remote_env True
            (print_out (''Running check: '' @ ''duplicate_dates'' @ ''...'')
               (print_out [] (world_of None)))
            = (Inr candidates, w1)
        \<and> py_iter candidates = Inr items
        \<and> length items = 2
        \<and> length (filter has_truthy_id items) = 1)"
proof -
  define run where "run = run_checks toy_env all_criteria True False demo_world"
  define S where "S = \<lparr> total_flagged = 9,
             by_criteria = [(''missing_data'', \<lparr>found = 1, flagged = 1\<rparr>),
                            (''duplicate_dates'', \<lparr>found = 2, flagged = 2\<rparr>),
                            (''incomplete_attendance'', \<lparr>found = 3, flagged = 3\<rparr>),
                            (''auto_imported'', \<lparr>found = 3, flagged = 3\<rparr>)] \<rparr>"
  note inst = preview_never_mutates [where E = toy_env and session_id = "PStr ''A''"
      and issue_type = "''missing_data''" and description = "''Missing required fields: date''"
      and use_remote = False and w = demo_world and criteria = all_criteria]
  have run: "fst run = Inr S"
    unfolding run_def S_def by code_simp
  have pair: "run_checks toy_env all_criteria True False demo_world = (Inr S, snd run)"
    using run unfolding run_def by (simp add: prod_eq_iff)
  have queried: "only_queried demo_world (snd run)"
    by (rule inst [THEN conjunct2, THEN conjunct1, rule_format, OF pair])
  have "local_db (snd run) = Some demo_db"
    using queried by (simp add: only_queried_def demo_world_def world_of_def)
  then have reviews: "persisted_reviews (snd run) = demo_reviews"
    by (simp add: persisted_reviews_def demo_db_def)
  have first: "(''missing_data'', \<lparr>found = 1, flagged = 1\<rparr>) \<in> set (by_criteria S)"
    by (simp add: S_def)
  have acc: "accurate_preview toy_env demo_world ''missing_data'' \<lparr>found = 1, flagged = 1\<rparr>"
    using inst [THEN conjunct2, THEN conjunct2, THEN conjunct1, rule_format, OF pair first]
    by simp
  have flag: "fst (flag_session_for_review toy_env (PStr ''A'') ''missing_data''
              ''Missing required fields: date'' True False demo_world) = Inr True"
    by (simp only: inst [THEN conjunct1] fst_conv)
  define remote where "remote = run_checks remote_env [''duplicate_dates''] True True (world_of None)"
  define R where "R = \<lparr> total_flagged = 1,
               by_criteria = [(''duplicate_dates'', \<lparr>found = 2, flagged = 1\<rparr>)] \<rparr>"
  note inst_remote = preview_never_mutates [where E = remote_env and session_id = PNone
      and issue_type = "[]" and description = "[]"
      and use_remote = True and w = "world_of None" and criteria = "[]"]
  have remote_run: "fst remote = Inr R"
    unfolding remote_def R_def by code_simp
  have remote_pair: "run_checks remote_env [''duplicate_dates''] True True (world_of None)
                       = (Inr R, snd remote)"
    using remote_run unfolding remote_def by (simp add: prod_eq_iff)
  have remote_log: "map snd (wrangler_log (snd remote)) = [SelectText DuplicateDatesQuery]"
    unfolding remote_def by code_simp
  have known: "check_functions ''duplicate_dates'' = Some detect_duplicate_dates"
    by (simp add: check_functions_def)
  from inst_remote [THEN conjunct2, THEN conjunct2, THEN conjunct2, rule_format,
      OF conjI, OF known remote_pair]
  obtain candidates items w1 where
    det: "detect_duplicate_dates remote_env True
            (print_out (''Running check: '' @ ''duplicate_dates'' @ ''...'')
               (print_out [] (world_of None)))
            = (Inr candidates, w1)"
    and iter: "py_iter candidates = Inr items"
    and entry: "by_criteria R
       = [(''duplicate_dates'',
           \<lparr>found = length items, flagged = length (filter has_truthy_id items)\<rparr>)]"
    by (elim exE conjE)
  have "length items = 2" and "length (filter has_truthy_id items) = 1"
    using entry by (simp_all add: R_def)
  with det iter have remote_counts: "\<exists>candidates items w1.
          detect_duplicate_dates remote_env True
            (print_out (''Running check: '' @ ''duplicate_dates'' @ ''...'')
               (print_out [] (world_of None)))
            = (Inr candidates, w1)
        \<and> py_iter candidates = Inr items
        \<and> length items = 2
        \<and> length (filter has_truthy_id items) = 1"
    by (intro exI conjI)
  show ?thesis
    using run queried reviews acc flag remote_run remote_log remote_counts
    unfolding run_def S_def remote_def R_def by (intro conjI)
qed

subsection \<open>Recognized and unrecognized criteria\<close>

lemma appended_flags_iff:
  "appended_flags db db' \<longleftrightarrow>
     sessions db' = sessions db \<and> memberships db' = memberships db
     \<and> session_absences db' = session_absences db
     \<and> review_queue_unique db' = review_queue_unique db
     \<and> (\<exists>rq added. review_queue db = Some rq \<and> review_queue db' = Some (rq @ added)
           \<and> list_all (\<lambda>r. rq_item_type r = SText ''session''
                                   \<and> rq_status r = SText ''pending'') added)"
  (is "?L \<longleftrightarrow> ?R")
proof
  assume ?L
  then obtain rq rq' where a: "review_queue db = Some rq" "review_queue db' = Some rq'"
    "take (length rq) rq' = rq"
    "list_all (\<lambda>r. rq_item_type r = SText ''session'' \<and> rq_status r = SText ''pending'')
       (drop (length rq) rq')"
    by (auto simp: appended_flags_def split: option.splits)
  have "rq' = rq @ drop (length rq) rq'"
    using a(3) append_take_drop_id [of "length rq" rq'] by simp
  with a \<open>?L\<close> show ?R
    by (auto simp: appended_flags_def)
next
  assume ?R
  then show ?L
    by (auto simp: appended_flags_def)
qed

lemma appended_flags_refl: "review_queue db = Some rq \<Longrightarrow> appended_flags db db"
  by (simp add: appended_flags_def)

lemma appended_flags_trans:
  "appended_flags a b \<Longrightarrow> appended_flags b c \<Longrightarrow> appended_flags a c"
  unfolding appended_flags_iff by (auto simp: list_all_iff)

lemma resolved_item_ids_append:
  "list_all (\<lambda>r. rq_item_type r = SText ''session'' \<and> rq_status r = SText ''pending'') added \<Longrightarrow>
   resolved_item_ids (rq @ added) = resolved_item_ids rq"
proof -
  assume "list_all (\<lambda>r. rq_item_type r = SText ''session'' \<and> rq_status r = SText ''pending'') added"
  then have "filter (\<lambda>r. sql_eq (rq_item_type r) (SText ''session'')
                    \<and> sql_eq (rq_status r) (SText ''resolved'')) added = []"
    by (auto simp: filter_empty_conv list_all_iff sql_eq_def)
  then show ?thesis
    by (simp add: resolved_item_ids_def)
qed

lemma run_query_appended:
  assumes "appended_flags db db'"
  shows "run_query q db' = run_query q db"
proof -
  from assms obtain rq added where
    same: "sessions db' = sessions db" "memberships db' = memberships db"
      "session_absences db' = session_absences db"
    and rq: "review_queue db = Some rq" "review_queue db' = Some (rq @ added)"
    and added: "list_all (\<lambda>r. rq_item_type r = SText ''session''
                                   \<and> rq_status r = SText ''pending'') added"
    unfolding appended_flags_iff by blast
  show ?thesis
    by (cases q)
       (simp_all add: select_missing_data_def select_duplicate_dates_def
          select_incomplete_attendance_def select_auto_imported_def same rq
          resolved_item_ids_append [OF added] split: option.splits)
qed

lemma check_appended:
  assumes "check_functions c = Some check"
    and "local_db w = Some db" and "local_db w1 = Some db1" and "appended_flags db db1"
  shows "fst (check E False w1) = fst (check E False w)"
proof -
  have "check = detect_missing_data_sessions \<or> check = detect_duplicate_dates
        \<or> check = detect_incomplete_attendance \<or> check = detect_auto_imported_unreviewed"
    using assms(1) by (auto simp: check_functions_def split: if_splits)
  moreover have "fst (execute_query E q False w1) = fst (execute_query E q False w)" for q
    using assms(2,3) run_query_appended [OF assms(4)] by (simp add: execute_query_local_fst)
  ultimately show ?thesis
    by (auto simp: detect_missing_data_sessions_def detect_duplicate_dates_def
        detect_auto_imported_unreviewed_def detect_incomplete_fst)
qed

lemma run_query_tables:
  assumes "sessions db = Some ss" and "session_absences db = Some sas"
    and "memberships db = Some ms" and "review_queue db = Some rq"
  shows "\<exists>rows. run_query q db = Inr rows"
  using assms
  by (cases q)
     (simp_all add: select_missing_data_def select_duplicate_dates_def
        select_incomplete_attendance_def select_auto_imported_def Let_def)

lemma is_dict_dict_of_row: "list_all is_dict (map dict_of_row rows)"
  by (simp add: list_all_iff is_dict_def dict_of_row_def)

lemma check_local_dicts:
  assumes "check_functions c = Some check" and "local_db w = Some db"
    and "sessions db = Some ss" and "session_absences db = Some sas"
    and "memberships db = Some ms" and "review_queue db = Some rq"
  shows "\<exists>items. check E False w = (Inr (PList items), w) \<and> list_all is_dict items"
proof -
  have cases: "check = detect_missing_data_sessions \<or> check = detect_duplicate_dates
        \<or> check = detect_incomplete_attendance \<or> check = detect_auto_imported_unreviewed"
    using assms(1) by (auto simp: check_functions_def split: if_splits)
  have q: "\<exists>rows. execute_query E q False w = (Inr (PList (map dict_of_row rows)), w)" for q
    using run_query_tables [OF assms(3-6), of q] assms(2)
    by (auto simp: execute_query_local)
  have inc: "\<exists>items. detect_incomplete_attendance E False w = (Inr (PList items), w)
               \<and> list_all is_dict items"
  proof -
    from q obtain rows where
      "execute_query E IncompleteAttendanceQuery False w = (Inr (PList (map dict_of_row rows)), w)"
      by blast
    then have "detect_incomplete_attendance E False w
                 = (Inr (PList (filter has_members (map dict_of_row rows))), w)"
      using detect_incomplete_attendance_loop [of E False w "PList (map dict_of_row rows)" w
          "map dict_of_row rows"]
      by (simp add: py_iter_def is_dict_dict_of_row)
    moreover have "list_all is_dict (filter has_members (map dict_of_row rows))"
      using is_dict_dict_of_row [of rows] by (auto simp: list_all_iff)
    ultimately show ?thesis
      by blast
  qed
  from cases show ?thesis
  proof (elim disjE)
    assume "check = detect_incomplete_attendance"
    with inc show ?thesis by simp
  qed (use q is_dict_dict_of_row in \<open>auto simp: detect_missing_data_sessions_def
        detect_duplicate_dates_def detect_auto_imported_unreviewed_def\<close>)
qed

lemma bind_param_not_integrity: "bind_param v \<noteq> Inl (IntegrityError m)"
  by (simp add: bind_param_def split: pyval.splits)

lemma appended_flags_queue:
  "appended_flags db db' \<Longrightarrow> \<exists>rq'. review_queue db' = Some rq'"
  unfolding appended_flags_iff by blast

lemma appended_flags_insert:
  assumes "review_queue db = Some rq"
    and "rq_item_type new = SText ''session''" and "rq_status new = SText ''pending''"
  shows "appended_flags db (db\<lparr>review_queue := Some (rq @ [new])\<rparr>)"
  unfolding appended_flags_iff using assms by simp

lemma flag_local_step:
  assumes "local_db w = Some db" and "review_queue db = Some rq"
  shows "\<exists>w' db'. flag_session_for_review E sid c desc False False w
           = (Inr (case bind_param sid of Inr v \<Rightarrow> True | Inl e \<Rightarrow> False), w')
         \<and> local_db w' = Some db' \<and> appended_flags db db' \<and> draws w' = draws w + 1"
proof (cases "bind_param sid")
  case (Inl e)
  then have "\<forall>m. e \<noteq> IntegrityError m"
    using bind_param_not_integrity [of sid] by auto
  with Inl assms appended_flags_refl [OF assms(2)] show ?thesis
    by (cases e)
       (auto simp: flag_session_for_review_def Let_def get_db_connection_def
          execute_insert_def conn_close_def print_err_def)
next
  case (Inr item)
  let ?new = "\<lparr> rq_id = SText (''review_'' @ take 24 (uuid4_hex E (draws w))),
                 rq_item_type = SText ''session'', rq_item_id = item,
                 rq_issue_type = SText c, rq_description = SText desc,
                 rq_status = SText ''pending'',
                 rq_created_at = SText (utcnow_isoformat E (draws w)) \<rparr>"
  have ins: "appended_flags db (db\<lparr>review_queue := Some (rq @ [?new])\<rparr>)"
    by (rule appended_flags_insert [OF assms(2)]) simp_all
  from Inr assms ins appended_flags_refl [OF assms(2)] show ?thesis
    by (simp add: flag_session_for_review_def Let_def get_db_connection_def
        execute_insert_def insert_review_def conn_close_def)
qed

lemma flag_sessions_local:
  assumes "list_all is_dict items" and "local_db w = Some db" and "appended_flags db0 db"
  shows "\<exists>w' db'. flag_sessions E c False False items n w
           = (Inr (n + length (filter writable items)), w')
         \<and> local_db w' = Some db' \<and> appended_flags db0 db'
         \<and> draws w' = draws w + length (filter has_truthy_id items)"
  using assms
proof (induction items arbitrary: n w db)
  case Nil
  then show ?case by simp
next
  case (Cons candidate rest)
  from Cons.prems(1) obtain session where dict: "candidate = PDict session"
    by (cases candidate) (simp_all add: is_dict_def)
  from Cons.prems(1) have rest: "list_all is_dict rest"
    by simp
  let ?sid = "dict_get session ''id'' PNone"
  show ?case
  proof (cases "truthy ?sid")
    case False
    then have "\<not> writable candidate" "\<not> has_truthy_id candidate"
      using dict by (simp_all add: writable_def)
    with Cons.IH [OF rest Cons.prems(2,3), of n] dict False show ?thesis
      by simp
  next
    case True
    obtain rq where rq: "review_queue db = Some rq"
      using appended_flags_queue [OF Cons.prems(3)] by blast
    let ?ok = "case bind_param ?sid of Inr v \<Rightarrow> True | Inl e \<Rightarrow> False"
    from flag_local_step [OF Cons.prems(2) rq, of E ?sid c "description_for E c session"]
    obtain w1 db1 where
      call: "flag_session_for_review E ?sid c (description_for E c session) False False w
               = (Inr ?ok, w1)"
      and db1: "local_db w1 = Some db1" and app: "appended_flags db db1"
      and dr: "draws w1 = draws w + 1"
      by blast
    have app1: "appended_flags db0 db1"
      using appended_flags_trans [OF Cons.prems(3) app] .
    have w: "writable candidate = ?ok" "has_truthy_id candidate"
      using dict True by (simp_all add: writable_def)
    from Cons.IH [OF rest db1 app1, of "if ?ok then n + 1 else n"]
    obtain w' db' where
      "flag_sessions E c False False rest (if ?ok then n + 1 else n) w1
         = (Inr ((if ?ok then n + 1 else n) + length (filter writable rest)), w')"
      and "local_db w' = Some db'" and "appended_flags db0 db'"
      and "draws w' = draws w1 + length (filter has_truthy_id rest)"
      by blast
    with dict True call dr w show ?thesis
      by (cases ?ok) simp_all
  qed
qed

lemma local_candidates_eq:
  "check_functions c = Some check \<Longrightarrow> fst (check E False w) = Inr (PList items) \<Longrightarrow>
   local_candidates E w c = items"
  by (simp add: local_candidates_def)

lemma appended_flags_tables:
  assumes "appended_flags db0 db" and "sessions db0 = Some ss"
    and "session_absences db0 = Some sas" and "memberships db0 = Some ms"
  shows "sessions db = Some ss \<and> session_absences db = Some sas \<and> memberships db = Some ms
         \<and> (\<exists>rq. review_queue db = Some rq)"
  using assms unfolding appended_flags_iff by auto

lemma loop_local:
  assumes "local_db w0 = Some db0" and "sessions db0 = Some ss"
    and "session_absences db0 = Some sas" and "memberships db0 = Some ms"
    and "local_db w = Some db" and "appended_flags db0 db"
  shows "\<exists>res' w' db'. run_checks_loop E cs False False res w = (Inr res', w')
      \<and> local_db w' = Some db' \<and> appended_flags db0 db'
      \<and> total_flagged res' = total_flagged res
           + sum_list (map (\<lambda>c. length (filter writable (local_candidates E w0 c)))
                        (filter recognized cs))
      \<and> draws w' = draws w
           + sum_list (map (\<lambda>c. length (filter has_truthy_id (local_candidates E w0 c)))
                        (filter recognized cs))
      \<and> ((\<forall>p \<in> set (by_criteria res).
              snd p = \<lparr>found = length (local_candidates E w0 (fst p)),
                        flagged = length (filter writable (local_candidates E w0 (fst p)))\<rparr>)
           \<longrightarrow> (\<forall>p \<in> set (by_criteria res').
              snd p = \<lparr>found = length (local_candidates E w0 (fst p)),
                        flagged = length (filter writable (local_candidates E w0 (fst p)))\<rparr>))"
  using assms(5,6)
proof (induction cs arbitrary: res w db)
  case Nil
  then show ?case by simp
next
  case (Cons c cs)
  show ?case
  proof (cases "check_functions c")
    case None
    then have unknown: "\<not> recognized c"
      by (simp add: recognized_def)
    have "local_db (print_err (unknown_criterion_warning c) w) = Some db"
      using Cons.prems(1) by (simp add: print_err_def)
    from Cons.IH [OF this Cons.prems(2), of res] None unknown show ?thesis
      by (simp add: print_err_def)
  next
    case (Some check)
    then have known: "recognized c"
      by (simp add: recognized_def)
    let ?wp = "print_out (''Running check: '' @ c @ ''...'') (print_out [] w)"
    have dbp: "local_db ?wp = Some db" and drp: "draws ?wp = draws w"
      using Cons.prems(1) by (simp_all add: print_out_def)
    from appended_flags_tables [OF Cons.prems(2) assms(2-4)] obtain rq where
      tables: "sessions db = Some ss" "session_absences db = Some sas"
        "memberships db = Some ms" "review_queue db = Some rq"
      by blast
    from check_local_dicts [OF Some dbp tables, of E] obtain items where
      det: "check E False ?wp = (Inr (PList items), ?wp)" and dicts: "list_all is_dict items"
      by blast
    have "fst (check E False ?wp) = fst (check E False w0)"
      using check_appended [OF Some assms(1) dbp Cons.prems(2)] .
    with det have "fst (check E False w0) = Inr (PList items)"
      by simp
    then have cand: "local_candidates E w0 c = items"
      using Some by (rule local_candidates_eq [rotated])
    from flag_sessions_local [OF dicts dbp Cons.prems(2), of E c 0] obtain w2 db2 where
      fl: "flag_sessions E c False False items 0 ?wp
             = (Inr (length (filter writable items)), w2)"
      and db2: "local_db w2 = Some db2" and app2: "appended_flags db0 db2"
      and dr2: "draws w2 = draws ?wp + length (filter has_truthy_id items)"
      by auto
    let ?k = "length (filter writable items)"
    let ?st = "\<lparr>found = length items, flagged = ?k\<rparr>"
    let ?res = "res\<lparr>by_criteria := AList.update c ?st (by_criteria res),
                     total_flagged := total_flagged res + ?k\<rparr>"
    let ?w3 = "print_out (''  Found '' @ str_nat (length items) @ '' sessions, flagged ''
                          @ str_nat ?k @ '' for review'') w2"
    have step: "run_checks_loop E (c # cs) False False res w
                  = run_checks_loop E cs False False ?res ?w3"
      using Some det fl by (simp add: py_iter_def py_len_def)
    have db3: "local_db ?w3 = Some db2" and dr3: "draws ?w3 = draws w2"
      using db2 by (simp_all add: print_out_def)
    from Cons.IH [OF db3 app2, of ?res] obtain res' w' db' where
      run: "run_checks_loop E cs False False ?res ?w3 = (Inr res', w')"
      and db': "local_db w' = Some db'" and app': "appended_flags db0 db'"
      and tot: "total_flagged res' = total_flagged ?res
           + sum_list (map (\<lambda>c. length (filter writable (local_candidates E w0 c)))
                        (filter recognized cs))"
      and dr: "draws w' = draws ?w3
           + sum_list (map (\<lambda>c. length (filter has_truthy_id (local_candidates E w0 c)))
                        (filter recognized cs))"
      and inv: "(\<forall>p \<in> set (by_criteria ?res).
              snd p = \<lparr>found = length (local_candidates E w0 (fst p)),
                        flagged = length (filter writable (local_candidates E w0 (fst p)))\<rparr>)
           \<longrightarrow> (\<forall>p \<in> set (by_criteria res').
              snd p = \<lparr>found = length (local_candidates E w0 (fst p)),
                        flagged = length (filter writable (local_candidates E w0 (fst p)))\<rparr>)"
      by blast
    have inv': "\<forall>p \<in> set (by_criteria res').
              snd p = \<lparr>found = length (local_candidates E w0 (fst p)),
                        flagged = length (filter writable (local_candidates E w0 (fst p)))\<rparr>"
      if old: "\<forall>p \<in> set (by_criteria res).
              snd p = \<lparr>found = length (local_candidates E w0 (fst p)),
                        flagged = length (filter writable (local_candidates E w0 (fst p)))\<rparr>"
    proof -
      have "\<forall>p \<in> set (AList.update c ?st (by_criteria res)).
              snd p = \<lparr>found = length (local_candidates E w0 (fst p)),
                        flagged = length (filter writable (local_candidates E w0 (fst p)))\<rparr>"
        using old cand set_update_subset [of c ?st "by_criteria res"] by auto
      with inv show ?thesis
        by simp
    qed
    show ?thesis
      apply (rule exI [of _ res'], rule exI [of _ w'], rule exI [of _ db'])
      apply (intro conjI)
      subgoal using step run by simp
      subgoal by (rule db')
      subgoal by (rule app')
      subgoal using tot known cand by simp
      subgoal using dr dr3 dr2 drp known cand by simp
      subgoal using inv' by blast
      done
  qed
qed

lemma alist_of_keys:
  "\<forall>p \<in> set al. snd p = f (fst p) \<Longrightarrow> al = map (\<lambda>k. (k, f k)) (map fst al)"
  by (induction al) auto

lemma loop_append:
  "run_checks_loop E (xs @ ys) dry u res w =
     (case run_checks_loop E xs dry u res w of
        (Inl e, w1) \<Rightarrow> (Inl e, w1)
      | (Inr res1, w1) \<Rightarrow> run_checks_loop E ys dry u res1 w1)"
  by (induction xs arbitrary: res w) (simp_all split: option.splits prod.splits sum.splits)

lemma update_entry: "(k, v) \<in> set (AList.update k v al)"
  by (induction al) auto

lemma update_other: "k \<noteq> c \<Longrightarrow> (c, st) \<in> set al \<Longrightarrow> (c, st) \<in> set (AList.update k v al)"
  by (induction al) auto

lemma loop_keeps_entry:
  "run_checks_loop E cs dry u res w = (Inr res', w') \<Longrightarrow> c \<notin> set cs \<Longrightarrow>
   (c, st) \<in> set (by_criteria res) \<Longrightarrow> (c, st) \<in> set (by_criteria res')"
proof (induction cs arbitrary: res w)
  case Nil
  then show ?case by simp
next
  case (Cons x cs)
  show ?case
  proof (cases "check_functions x")
    case None
    with Cons show ?thesis by simp
  next
    case (Some check)
    from Some Cons.prems(1) obtain candidates items k w1 w2 where
      rest: "run_checks_loop E cs dry u
           (res\<lparr>by_criteria :=
                  AList.update x \<lparr>found = py_len candidates, flagged = k\<rparr> (by_criteria res),
                total_flagged := total_flagged res + k\<rparr>)
           (print_out (''  Found '' @ str_nat (py_len candidates) @ '' sessions, flagged ''
                       @ str_nat k @ '' for review'') w2)
         = (Inr res', w')"
      by (rule loop_known)
    have "x \<noteq> c" and "c \<notin> set cs"
      using Cons.prems(2) by auto
    then have "(c, st) \<in> set (AList.update x \<lparr>found = py_len candidates, flagged = k\<rparr>
                                 (by_criteria res))"
      using Cons.prems(3) by (intro update_other)
    with Cons.IH [OF rest \<open>c \<notin> set cs\<close>] show ?thesis
      by simp
  qed
qed

lemma run_checks_at:
  assumes "check_functions c = Some check"
    and "run_checks E (cs1 @ c # cs2) dry u w = (Inr summary, w')"
  shows "\<exists>s1 w0 candidates items w1 k w2.
       run_checks E cs1 dry u w = (Inr s1, w0)
     \<and> check E u (print_out (''Running check: '' @ c @ ''...'') (print_out [] w0))
         = (Inr candidates, w1)
     \<and> py_iter candidates = Inr items
     \<and> flag_sessions E c dry u items 0 w1 = (Inr k, w2)
     \<and> k \<le> length (filter has_truthy_id items)
     \<and> draws w2 = draws w1 + length (filter has_truthy_id items)
     \<and> (c \<notin> set cs2 \<longrightarrow> (c, \<lparr>found = length items, flagged = k\<rparr>) \<in> set (by_criteria summary))"
proof -
  let ?empty = "\<lparr>total_flagged = 0, by_criteria = []\<rparr>"
  have run: "run_checks_loop E (cs1 @ c # cs2) dry u ?empty w = (Inr summary, w')"
    using assms(2) by (simp only: run_checks_def)
  obtain r1 w0 where first: "run_checks_loop E cs1 dry u ?empty w = (r1, w0)"
    by (cases "run_checks_loop E cs1 dry u ?empty w") auto
  with run obtain s1 where s1: "r1 = Inr s1"
    and tail: "run_checks_loop E (c # cs2) dry u s1 w0 = (Inr summary, w')"
    by (cases r1) (simp_all add: loop_append)
  from assms(1) tail obtain candidates items k w1 w2 where
    det: "check E u (print_out (''Running check: '' @ c @ ''...'') (print_out [] w0))
       = (Inr candidates, w1)"
    and iter: "py_iter candidates = Inr items"
    and fl: "flag_sessions E c dry u items 0 w1 = (Inr k, w2)"
    and rest: "run_checks_loop E cs2 dry u
           (s1\<lparr>by_criteria :=
                  AList.update c \<lparr>found = py_len candidates, flagged = k\<rparr> (by_criteria s1),
                total_flagged := total_flagged s1 + k\<rparr>)
           (print_out (''  Found '' @ str_nat (py_len candidates) @ '' sessions, flagged ''
                       @ str_nat k @ '' for review'') w2)
         = (Inr summary, w')"
    by (rule loop_known)
  have writes: "k \<le> length (filter has_truthy_id items)"
    "draws w2 = draws w1 + length (filter has_truthy_id items)"
    using flag_sessions_writes [OF fl] by simp_all
  have entry: "(c, \<lparr>found = length items, flagged = k\<rparr>) \<in> set (by_criteria summary)"
    if "c \<notin> set cs2"
  proof -
    have "(c, \<lparr>found = py_len candidates, flagged = k\<rparr>)
            \<in> set (by_criteria (s1\<lparr>by_criteria :=
                  AList.update c \<lparr>found = py_len candidates, flagged = k\<rparr> (by_criteria s1),
                total_flagged := total_flagged s1 + k\<rparr>))"
      by (simp add: update_entry)
    from loop_keeps_entry [OF rest that this] show ?thesis
      by (simp add: py_len_iter [OF iter])
  qed
  have "run_checks E cs1 dry u w = (Inr s1, w0)"
    using first s1 by (simp add: run_checks_def)
  with det iter fl writes entry show ?thesis
    by blast
qed

lemma run_checks_local:
  assumes "local_db w = Some db" and "sessions db = Some ss"
    and "session_absences db = Some sas" and "memberships db = Some ms"
    and "review_queue db = Some rq"
  shows "\<exists>summary w' db'. run_checks E criteria False False w = (Inr summary, w')
      \<and> (\<forall>c \<in> set criteria. recognized c \<longrightarrow>
            (\<exists>check. check_functions c = Some check
               \<and> fst (check E False w) = Inr (PList (local_candidates E w c))))
      \<and> by_criteria summary
          = map (\<lambda>c. (c, \<lparr>found = length (local_candidates E w c),
                           flagged = length (filter writable (local_candidates E w c))\<rparr>))
              (first_occurrences (filter recognized criteria))
      \<and> total_flagged summary
          = sum_list (map (\<lambda>c. length (filter writable (local_candidates E w c)))
                       (filter recognized criteria))
      \<and> draws w' = draws w
          + sum_list (map (\<lambda>c. length (filter has_truthy_id (local_candidates E w c)))
                       (filter recognized criteria))
      \<and> local_db w' = Some db' \<and> appended_flags db db'"
proof -
  let ?empty = "\<lparr>total_flagged = 0, by_criteria = []\<rparr>"
  let ?S = "\<lambda>c. \<lparr>found = length (local_candidates E w c),
                  flagged = length (filter writable (local_candidates E w c))\<rparr>"
  from loop_local [OF assms(1-4) assms(1) appended_flags_refl [OF assms(5)], of E criteria ?empty]
  obtain summary w' db' where
    run: "run_checks_loop E criteria False False ?empty w = (Inr summary, w')"
    and db': "local_db w' = Some db'" and app: "appended_flags db db'"
    and tot: "total_flagged summary = total_flagged ?empty
           + sum_list (map (\<lambda>c. length (filter writable (local_candidates E w c)))
                        (filter recognized criteria))"
    and dr: "draws w' = draws w
           + sum_list (map (\<lambda>c. length (filter has_truthy_id (local_candidates E w c)))
                        (filter recognized criteria))"
    and inv: "(\<forall>p \<in> set (by_criteria ?empty). snd p = ?S (fst p))
           \<longrightarrow> (\<forall>p \<in> set (by_criteria summary). snd p = ?S (fst p))"
    by blast
  have vals: "\<forall>p \<in> set (by_criteria summary). snd p = ?S (fst p)"
    using inv by simp
  have keys: "map fst (by_criteria summary) = first_occurrences (filter recognized criteria)"
    using loop_keys [OF run] by simp
  have entries: "by_criteria summary
          = map (\<lambda>c. (c, ?S c)) (first_occurrences (filter recognized criteria))"
    using alist_of_keys [OF vals] keys by simp
  have rules: "\<forall>c \<in> set criteria. recognized c \<longrightarrow>
            (\<exists>check. check_functions c = Some check
               \<and> fst (check E False w) = Inr (PList (local_candidates E w c)))"
  proof (intro ballI impI)
    fix c assume "c \<in> set criteria" and "recognized c"
    then obtain check where known: "check_functions c = Some check"
      by (auto simp: recognized_def)
    from check_local_dicts [OF known assms, of E] obtain items where
      "fst (check E False w) = Inr (PList items)"
      by force
    with known show "\<exists>check. check_functions c = Some check
               \<and> fst (check E False w) = Inr (PList (local_candidates E w c))"
      by (simp add: local_candidates_def)
  qed
  have "run_checks E criteria False False w = (Inr summary, w')"
    using run by (simp only: run_checks_def)
  with rules entries tot dr db' app show ?thesis
    by (intro exI conjI) simp_all
qed

text \<open>
  Claim C8. The criteria that \<open>run_checks\<close> does not recognize have no effect
  but a warning: the run gives the same result and the same world, up to standard error,
  as the run on the recognized criteria alone. When the run completes, the summary has
  one entry per recognized criterion, in the order in which the caller first named them;
  standard error holds the warning of every unrecognized criterion; in every entry
  \<open>flagged\<close> is at most \<open>found\<close>; and when no recognized criterion is named
  twice, the grand total is the sum of the per-criterion flagged counts.

  Every recognized criterion of the list is executed, in both modes: when the run
  completes, the run on the criteria before it completed, its rule was then run in the
  world reached, the loop over its candidates called the writer once for each candidate
  with a truthy \<open>id\<close>, and, unless the criterion is named again later, its entry
  holds the number of candidates of the rule and the count of the loop.

  In local mode with the four tables present, a run that writes completes for every list
  of criteria. Each recognized criterion has an entry, whose \<open>found\<close> is the number
  of candidates that its rule returns on the store and whose \<open>flagged\<close> is the
  number of those that the writer accepts; the grand total adds the flagged count of
  every recognized criterion as often as it is named; the writer was called once for each
  candidate with a truthy \<open>id\<close>; and the store has changed only by pending entries
  added to \<open>review_queue\<close>.
\<close>

theorem unknown_criteria_skipped:
  "same_outcome (run_checks E criteria dry_run use_remote w)
                (run_checks E (filter recognized criteria) dry_run use_remote w)
   \<and> (\<forall>summary w'. run_checks E criteria dry_run use_remote w = (Inr summary, w') \<longrightarrow>
         map fst (by_criteria summary) = first_occurrences (filter recognized criteria)
       \<and> (\<forall>c \<in> set criteria. \<not> recognized c
             \<longrightarrow> unknown_criterion_warning c \<in> set (stderr w'))
       \<and> (\<forall>st \<in> snd ` set (by_criteria summary). flagged st \<le> found st)
       \<and> (distinct (filter recognized criteria)
             \<longrightarrow> total_flagged summary = flagged_sum (by_criteria summary)))
   \<and> (\<forall>cs1 c cs2 check summary w'.
         criteria = cs1 @ c # cs2 \<and> check_functions c = Some check
           \<and> run_checks E criteria dry_run use_remote w = (Inr summary, w') \<longrightarrow>
         (\<exists>s1 w0 candidates items w1 k w2.
             run_checks E cs1 dry_run use_remote w = (Inr s1, w0)
           \<and> check E use_remote (print_out (''Running check: '' @ c @ ''...'') (print_out [] w0))
               = (Inr candidates, w1)
           \<and> py_iter candidates = Inr items
           \<and> flag_sessions E c dry_run use_remote items 0 w1 = (Inr k, w2)
           \<and> k \<le> length (filter has_truthy_id items)
           \<and> draws w2 = draws w1 + length (filter has_truthy_id items)
           \<and> (c \<notin> set cs2
                \<longrightarrow> (c, \<lparr>found = length items, flagged = k\<rparr>) \<in> set (by_criteria summary))))
   \<and> (\<forall>db ss sas ms rq.
         local_db w = Some db \<and> sessions db = Some ss \<and> session_absences db = Some sas
           \<and> memberships db = Some ms \<and> review_queue db = Some rq \<longrightarrow>
         (\<exists>summary w' db'.
             run_checks E criteria False False w = (Inr summary, w')
           \<and> (\<forall>c \<in> set criteria. recognized c \<longrightarrow>
                 (\<exists>check. check_functions c = Some check
                    \<and> fst (check E False w) = Inr (PList (local_candidates E w c))))
           \<and> by_criteria summary
               = map (\<lambda>c. (c, \<lparr>found = length (local_candidates E w c),
                                flagged = length (filter writable (local_candidates E w c))\<rparr>))
                   (first_occurrences (filter recognized criteria))
           \<and> total_flagged summary
               = sum_list (map (\<lambda>c. length (filter writable (local_candidates E w c)))
                            (filter recognized criteria))
           \<and> draws w' = draws w
               + sum_list (map (\<lambda>c. length (filter has_truthy_id (local_candidates E w c)))
                            (filter recognized criteria))
           \<and> local_db w' = Some db' \<and> appended_flags db db'))"
proof (intro conjI allI impI)
  show "same_outcome (run_checks E criteria dry_run use_remote w)
                (run_checks E (filter recognized criteria) dry_run use_remote w)"
    unfolding run_checks_def by (rule loop_skips_unknown)
next
  fix summary w'
  assume "run_checks E criteria dry_run use_remote w = (Inr summary, w')"
  then have run: "run_checks_loop E criteria dry_run use_remote
                    \<lparr>total_flagged = 0, by_criteria = []\<rparr> w = (Inr summary, w')"
    by (simp only: run_checks_def)
  show "map fst (by_criteria summary) = first_occurrences (filter recognized criteria)"
    using loop_keys [OF run] by simp
  show "\<forall>c \<in> set criteria. \<not> recognized c \<longrightarrow> unknown_criterion_warning c \<in> set (stderr w')"
    using loop_warnings [OF run] by blast
  show "\<forall>st \<in> snd ` set (by_criteria summary). flagged st \<le> found st"
    using loop_counts [OF run] by simp
  show "total_flagged summary = flagged_sum (by_criteria summary)"
    if "distinct (filter recognized criteria)"
    using loop_total [OF run that] by (simp add: flagged_sum_def)
next
  fix cs1 c cs2 check summary w'
  assume "criteria = cs1 @ c # cs2 \<and> check_functions c = Some check
           \<and> run_checks E criteria dry_run use_remote w = (Inr summary, w')"
  then have "check_functions c = Some check"
    and "run_checks E (cs1 @ c # cs2) dry_run use_remote w = (Inr summary, w')"
    by auto
  then show "\<exists>s1 w0 candidates items w1 k w2.
             run_checks E cs1 dry_run use_remote w = (Inr s1, w0)
           \<and> check E use_remote (print_out (''Running check: '' @ c @ ''...'') (print_out [] w0))
               = (Inr candidates, w1)
           \<and> py_iter candidates = Inr items
           \<and> flag_sessions E c dry_run use_remote items 0 w1 = (Inr k, w2)
           \<and> k \<le> length (filter has_truthy_id items)
           \<and> draws w2 = draws w1 + length (filter has_truthy_id items)
           \<and> (c \<notin> set cs2
                \<longrightarrow> (c, \<lparr>found = length items, flagged = k\<rparr>) \<in> set (by_criteria summary))"
    by (rule run_checks_at)
next
  fix db ss sas ms rq
  assume "local_db w = Some db \<and> sessions db = Some ss \<and> session_absences db = Some sas
           \<and> memberships db = Some ms \<and> review_queue db = Some rq"
  then have "local_db w = Some db" "sessions db = Some ss" "session_absences db = Some sas"
    "memberships db = Some ms" "review_queue db = Some rq"
    by simp_all
  then show "\<exists>summary w' db'.
             run_checks E criteria False False w = (Inr summary, w')
           \<and> (\<forall>c \<in> set criteria. recognized c \<longrightarrow>
                 (\<exists>check. check_functions c = Some check
                    \<and> fst (check E False w) = Inr (PList (local_candidates E w c))))
           \<and> by_criteria summary
               = map (\<lambda>c. (c, \<lparr>found = length (local_candidates E w c),
                                flagged = length (filter writable (local_candidates E w c))\<rparr>))
                   (first_occurrences (filter recognized criteria))
           \<and> total_flagged summary
               = sum_list (map (\<lambda>c. length (filter writable (local_candidates E w c)))
                            (filter recognized criteria))
           \<and> draws w' = draws w
               + sum_list (map (\<lambda>c. length (filter has_truthy_id (local_candidates E w c)))
                            (filter recognized criteria))
           \<and> local_db w' = Some db' \<and> appended_flags db db'"
    by (rule run_checks_local)
qed

text \<open>
  A local run with two unrecognized criteria on the example store: one entry for the
  session without a date, two for the sessions that share a date, and two warnings. The
  rule of \<open>duplicate_dates\<close> is run after the three criteria named before it. With
  an identifier source that never repeats, the three flags are in the store afterwards.
\<close>

theorem unknown_criteria_skipped_witness:
  "fst (run_checks toy_env [''bogus'', ''missing_data'', ''nope'', ''duplicate_dates'']
          False False demo_world)
     = Inr \<lparr> total_flagged = 3,
             by_criteria = [(''missing_data'', \<lparr>found = 1, flagged = 1\<rparr>),
                            (''duplicate_dates'', \<lparr>found = 2, flagged = 2\<rparr>)] \<rparr>
   \<and> stderr (snd (run_checks toy_env [''bogus'', ''missing_data'', ''nope'', ''duplicate_dates'']
          False False demo_world))
       = [unknown_criterion_warning ''bogus'', unknown_criterion_warning ''nope'']
   \<and> same_outcome
        (run_checks toy_env [''bogus'', ''missing_data'', ''nope'', ''duplicate_dates'']
           False False demo_world)
        (run_checks toy_env [''missing_data'', ''duplicate_dates''] False False demo_world)
   \<and> unknown_criterion_warning ''nope''
        \<in> set (stderr (snd (run_checks toy_env
               [''bogus'', ''missing_data'', ''nope'', ''duplicate_dates''] False False demo_world)))
   \<and> (\<exists>s1 w0 candidates items w1.
          run_checks toy_env [''bogus'', ''missing_data'', ''nope''] False False demo_world
            = (Inr s1, w0)
        \<and> detect_duplicate_dates toy_env False
            (print_out (''Running check: '' @ ''duplicate_dates'' @ ''...'') (print_out [] w0))
            = (Inr candidates, w1)
        \<and> py_iter candidates = Inr items
        \<and> length items = 2
        \<and> flag_sessions toy_env ''duplicate_dates'' False False items 0 w1
            = (Inr 2, snd (flag_sessions toy_env ''duplicate_dates'' False False items 0 w1)))
   \<and> (\<exists>summary w'.
          run_checks toy_env [''bogus'', ''missing_data'', ''nope'', ''duplicate_dates'']
            False False demo_world = (Inr summary, w')
        \<and> local_candidates toy_env demo_world ''missing_data'' = [session_dict session_C]
        \<and> local_candidates toy_env demo_world ''duplicate_dates''
            = [session_dict session_A, session_dict session_B]
        \<and> by_criteria summary = [(''missing_data'', \<lparr>found = 1, flagged = 1\<rparr>),
                                  (''duplicate_dates'', \<lparr>found = 2, flagged = 2\<rparr>)]
        \<and> total_flagged summary = 3
        \<and> draws w' = 3)
   \<and> map (\<lambda>r. (rq_item_id r, rq_issue_type r, rq_status r))
        (persisted_reviews (snd (run_checks numbered_env
           [''bogus'', ''missing_data'', ''nope'', ''duplicate_dates''] False False demo_world)))
       = [(SText ''A'', SText ''auto_imported'', SText ''resolved''),
          (SText ''B'', SText ''auto_imported'', SText ''pending''),
          (SText ''C'', SText ''missing_data'', SText ''pending''),
          (SText ''A'', SText ''duplicate_dates'', SText ''pending''),
          (SText ''B'', SText ''duplicate_dates'', SText ''pending'')]"
proof -
  define cs where "cs = [''bogus'', ''missing_data'', ''nope'', ''duplicate_dates'']"
  define run where "run = run_checks toy_env cs False False demo_world"
  define S where "S = \<lparr> total_flagged = 3,
             by_criteria = [(''missing_data'', \<lparr>found = 1, flagged = 1\<rparr>),
                            (''duplicate_dates'', \<lparr>found = 2, flagged = 2\<rparr>)] \<rparr>"
  note inst = unknown_criteria_skipped [where E = toy_env and criteria = cs
      and dry_run = False and use_remote = False and w = demo_world]
  have known: "filter recognized cs = [''missing_data'', ''duplicate_dates'']"
    by (simp add: cs_def recognized_def check_functions_def)
  have unknown: "''nope'' \<in> set cs" "\<not> recognized ''nope''"
    by (simp_all add: cs_def recognized_def check_functions_def)
  have run: "fst run = Inr S"
    unfolding run_def S_def cs_def by code_simp
  have pair: "run_checks toy_env cs False False demo_world = (Inr S, snd run)"
    using run unfolding run_def by (simp add: prod_eq_iff)
  have err: "stderr (snd run)
               = [unknown_criterion_warning ''bogus'', unknown_criterion_warning ''nope'']"
    unfolding run_def cs_def by code_simp
  have same: "same_outcome run
                (run_checks toy_env [''missing_data'', ''duplicate_dates''] False False demo_world)"
    using inst [THEN conjunct1] unfolding known run_def .
  have warned: "unknown_criterion_warning ''nope'' \<in> set (stderr (snd run))"
    by (rule inst [THEN conjunct2, THEN conjunct1, rule_format, OF pair, THEN conjunct2,
          THEN conjunct1, rule_format, OF unknown])
  have split: "cs = [''bogus'', ''missing_data'', ''nope''] @ ''duplicate_dates'' # []"
    by (simp add: cs_def)
  have rule: "check_functions ''duplicate_dates'' = Some detect_duplicate_dates"
    by (simp add: check_functions_def)
  from inst [THEN conjunct2, THEN conjunct2, THEN conjunct1, rule_format,
      OF conjI, OF split conjI, OF rule pair]
  obtain s1 w0 candidates items w1 k w2 where
    before: "run_checks toy_env [''bogus'', ''missing_data'', ''nope''] False False demo_world
               = (Inr s1, w0)"
    and det: "detect_duplicate_dates toy_env False
            (print_out (''Running check: '' @ ''duplicate_dates'' @ ''...'') (print_out [] w0))
            = (Inr candidates, w1)"
    and iter: "py_iter candidates = Inr items"
    and fl: "flag_sessions toy_env ''duplicate_dates'' False False items 0 w1 = (Inr k, w2)"
    and "k \<le> length (filter has_truthy_id items)"
    and "draws w2 = draws w1 + length (filter has_truthy_id items)"
    and entry: "''duplicate_dates'' \<notin> set []
           \<longrightarrow> (''duplicate_dates'', \<lparr>found = length items, flagged = k\<rparr>) \<in> set (by_criteria S)"
    by (elim exE conjE)
  have counts: "length items = 2" "k = 2"
    using entry by (simp_all add: S_def)
  have fl2: "flag_sessions toy_env ''duplicate_dates'' False False items 0 w1
            = (Inr 2, snd (flag_sessions toy_env ''duplicate_dates'' False False items 0 w1))"
    using fl counts by simp
  have executed: "\<exists>s1 w0 candidates items w1.
          run_checks toy_env [''bogus'', ''missing_data'', ''nope''] False False demo_world
            = (Inr s1, w0)
        \<and> detect_duplicate_dates toy_env False
            (print_out (''Running check: '' @ ''duplicate_dates'' @ ''...'') (print_out [] w0))
            = (Inr candidates, w1)
        \<and> py_iter candidates = Inr items
        \<and> length items = 2
        \<and> flag_sessions toy_env ''duplicate_dates'' False False items 0 w1
            = (Inr 2, snd (flag_sessions toy_env ''duplicate_dates'' False False items 0 w1))"
    using before det iter counts(1) fl2 by (intro exI conjI)
  have cand: "local_candidates toy_env demo_world ''missing_data'' = [session_dict session_C]"
    "local_candidates toy_env demo_world ''duplicate_dates''
       = [session_dict session_A, session_dict session_B]"
    by code_simp+
  have accepted: "writable (session_dict session_A)" "writable (session_dict session_B)"
    "writable (session_dict session_C)" "has_truthy_id (session_dict session_A)"
    "has_truthy_id (session_dict session_B)" "has_truthy_id (session_dict session_C)"
    by code_simp+
  have start: "draws demo_world = 0"
    by (simp add: demo_world_def world_of_def)
  from inst [THEN conjunct2, THEN conjunct2, THEN conjunct2, rule_format,
      OF conjI, OF demo_hyps(1) conjI, OF demo_simps(2) conjI, OF demo_hyps(2) conjI,
      OF demo_hyps(3) demo_simps(3)]
  obtain summary w' db' where
    full: "run_checks toy_env cs False False demo_world = (Inr summary, w')"
    and "\<forall>c \<in> set cs. recognized c \<longrightarrow>
           (\<exists>check. check_functions c = Some check
              \<and> fst (check toy_env False demo_world)
                  = Inr (PList (local_candidates toy_env demo_world c)))"
    and entries: "by_criteria summary
               = map (\<lambda>c. (c, \<lparr>found = length (local_candidates toy_env demo_world c),
                     flagged = length (filter writable (local_candidates toy_env demo_world c))\<rparr>))
                   (first_occurrences (filter recognized cs))"
    and total: "total_flagged summary
               = sum_list (map (\<lambda>c. length (filter writable (local_candidates toy_env demo_world c)))
                            (filter recognized cs))"
    and calls: "draws w' = draws demo_world
               + sum_list (map (\<lambda>c. length (filter has_truthy_id
                                       (local_candidates toy_env demo_world c)))
                            (filter recognized cs))"
    and "local_db w' = Some db'" and "appended_flags demo_db db'"
    by (elim exE conjE)
  have e1: "by_criteria summary = [(''missing_data'', \<lparr>found = 1, flagged = 1\<rparr>),
                                  (''duplicate_dates'', \<lparr>found = 2, flagged = 2\<rparr>)]"
    using entries by (simp add: known cand accepted)
  have e2: "total_flagged summary = 3"
    using total by (simp add: known cand accepted)
  have e3: "draws w' = 3"
    using calls by (simp add: known cand accepted start)
  have accounted: "\<exists>summary w'.
          run_checks toy_env cs False False demo_world = (Inr summary, w')
        \<and> local_candidates toy_env demo_world ''missing_data'' = [session_dict session_C]
        \<and> local_candidates toy_env demo_world ''duplicate_dates''
            = [session_dict session_A, session_dict session_B]
        \<and> by_criteria summary = [(''missing_data'', \<lparr>found = 1, flagged = 1\<rparr>),
                                  (''duplicate_dates'', \<lparr>found = 2, flagged = 2\<rparr>)]
        \<and> total_flagged summary = 3
        \<and> draws w' = 3"
    using full cand e1 e2 e3 by (intro exI conjI)
  have stored: "map (\<lambda>r. (rq_item_id r, rq_issue_type r, rq_status r))
        (persisted_reviews (snd (run_checks numbered_env cs False False demo_world)))
       = [(SText ''A'', SText ''auto_imported'', SText ''resolved''),
          (SText ''B'', SText ''auto_imported'', SText ''pending''),
          (SText ''C'', SText ''missing_data'', SText ''pending''),
          (SText ''A'', SText ''duplicate_dates'', SText ''pending''),
          (SText ''B'', SText ''duplicate_dates'', SText ''pending'')]"
    unfolding cs_def by code_simp
  show ?thesis
    using run err same warned executed accounted stored
    unfolding run_def S_def cs_def by (intro conjI)
qed

end
